theory Spec2Isabelle
  imports Main "HOL-Library.AList" "HOL-Library.Sublist" "HOL-Library.Char_ord"
    "HOL-Library.List_Lexorder"
begin

section \<open>Dates, timestamps and their rendering\<close>

text \<open>
  The script works with \<^verbatim>\<open>datetime.date\<close> and timezone-aware
  \<^verbatim>\<open>datetime.datetime\<close> values. A date is its three calendar fields; a timestamp
  is a date, a wall-clock time and the UTC offset (in minutes, as the log format
  \<^verbatim>\<open>[+-]HH:MM\<close> gives it). Python integers are unbounded, so all fields are \<open>int\<close>.
\<close>

record date =
  year :: int
  month :: int
  day :: int

record datetime =
  date :: date
  hour :: int
  minute :: int
  second :: int
  utcoffset :: int

text \<open>Python compares dates field by field, year first.\<close>

definition date_le :: "date \<Rightarrow> date \<Rightarrow> bool" where
  "date_le a b =
     (year a < year b \<or>
      (year a = year b \<and> (month a < month b \<or> (month a = month b \<and> day a \<le> day b))))"

definition date_gt :: "date \<Rightarrow> date \<Rightarrow> bool" where
  "date_gt a b = (\<not> date_le a b)"

subsection \<open>The proleptic Gregorian ordinal\<close>

definition is_leap :: "int \<Rightarrow> bool" where
  "is_leap y = (y mod 4 = 0 \<and> (y mod 100 \<noteq> 0 \<or> y mod 400 = 0))"

definition days_before_year :: "int \<Rightarrow> int" where
  "days_before_year y = (let p = y - 1 in p * 365 + p div 4 - p div 100 + p div 400)"

definition DAYS_IN_MONTH :: "int list" where
  "DAYS_IN_MONTH = [-1, 31, 28, 31, 30, 31, 30, 31, 31, 30, 31, 30, 31]"

definition DAYS_BEFORE_MONTH :: "int list" where
  "DAYS_BEFORE_MONTH = [-1, 0, 31, 59, 90, 120, 151, 181, 212, 243, 273, 304, 334]"

definition days_before_month :: "int \<Rightarrow> int \<Rightarrow> int" where
  "days_before_month y m =
     DAYS_BEFORE_MONTH ! nat m + (if m > 2 \<and> is_leap y then 1 else 0)"

definition ymd2ord :: "date \<Rightarrow> int" where
  "ymd2ord d = days_before_year (year d) + days_before_month (year d) (month d) + day d"

definition MAXORDINAL :: int where
  "MAXORDINAL = 3652059"

definition ord2ymd :: "int \<Rightarrow> date" where
  "ord2ymd n0 =
     (let n = n0 - 1;
          n400 = n div 146097; n = n mod 146097;
          n100 = n div 36524; n = n mod 36524;
          n4 = n div 1461; n = n mod 1461;
          n1 = n div 365; n = n mod 365;
          y = n400 * 400 + 1 + n100 * 100 + n4 * 4 + n1
      in if n1 = 4 \<or> n100 = 4 then \<lparr>year = y - 1, month = 12, day = 31\<rparr>
         else
           let leapyear = (n1 = 3 \<and> (n4 \<noteq> 24 \<or> n100 = 3));
               m = (n + 50) div 32;
               preceding = DAYS_BEFORE_MONTH ! nat m + (if m > 2 \<and> leapyear then 1 else 0)
           in if preceding > n
              then let m' = m - 1;
                       preceding' = preceding -
                         (DAYS_IN_MONTH ! nat m' + (if m' = 2 \<and> leapyear then 1 else 0))
                   in \<lparr>year = y, month = m', day = n - preceding' + 1\<rparr>
              else \<lparr>year = y, month = m, day = n - preceding + 1\<rparr>)"

subsection \<open>Instants\<close>

text \<open>
  Aware datetimes are ordered, and subtracted, by the instant they denote: the local
  wall-clock reading minus the UTC offset. \<open>utc_seconds\<close> is that instant in seconds.
\<close>

definition utc_seconds :: "datetime \<Rightarrow> int" where
  "utc_seconds t =
     ymd2ord (date t) * 86400 + hour t * 3600 + minute t * 60 + second t - utcoffset t * 60"

subsection \<open>Decimal rendering\<close>

fun string_of_nat :: "nat \<Rightarrow> string" where
  "string_of_nat n =
     (if n < 10 then [char_of (48 + n)]
      else string_of_nat (n div 10) @ [char_of (48 + n mod 10)])"

declare string_of_nat.simps [simp del]

text \<open>\<open>fmt_d w i\<close> is \<^verbatim>\<open>"%0wd" % i\<close> (and \<^verbatim>\<open>f"{i:0w}"\<close>): zero padded to width \<open>w\<close>,
  the sign counted in the width.\<close>

definition fmt_d :: "nat \<Rightarrow> int \<Rightarrow> string" where
  "fmt_d w i =
     (if i < 0
      then (let s = string_of_nat (nat (- i)) in CHR ''-'' # replicate (w - 1 - length s) CHR ''0'' @ s)
      else (let s = string_of_nat (nat i) in replicate (w - length s) CHR ''0'' @ s))"

definition format_offset :: "int \<Rightarrow> string" where
  "format_offset off =
     (let sign = (if off < 0 then ''-'' else ''+'');
          a = (if off < 0 then - off else off)
      in sign @ fmt_d 2 (a div 60) @ '':'' @ fmt_d 2 (a mod 60))"

definition isoformat :: "datetime \<Rightarrow> string" where
  "isoformat t =
     fmt_d 4 (year (date t)) @ ''-'' @ fmt_d 2 (month (date t)) @ ''-'' @ fmt_d 2 (day (date t))
     @ ''T'' @ fmt_d 2 (hour t) @ '':'' @ fmt_d 2 (minute t) @ '':'' @ fmt_d 2 (second t)
     @ format_offset (utcoffset t)"

section \<open>Run configuration: \<^verbatim>\<open>parse_arguments\<close>\<close>

datatype error = SystemExit1 | ValueError | OverflowError | IndexError

text \<open>
  A date option of the command line, after \<^verbatim>\<open>strptime(..., "%Y-%m-%d")\<close>: absent (or the
  empty string, which the \<^verbatim>\<open>if args.end_date:\<close> test treats alike), not a date
  (\<^verbatim>\<open>strptime\<close> raises \<^verbatim>\<open>ValueError\<close>), or a date.
\<close>

datatype date_arg = NotGiven | Unparsable | Given date

record args =
  user :: string
  start_date_dt :: date
  end_date_dt :: date

text \<open>\<^verbatim>\<open>d - timedelta(days=n)\<close>: the constructor refuses more than 999999999 days, the
  subtraction a result outside the ordinals \<open>1 .. MAXORDINAL\<close>.\<close>

definition date_sub_days :: "date \<Rightarrow> int \<Rightarrow> error + date" where
  "date_sub_days d n =
     (if \<bar>n\<bar> > 999999999 then Inl OverflowError
      else let ord = ymd2ord d - n
           in if 0 < ord \<and> ord \<le> MAXORDINAL then Inr (ord2ymd ord) else Inl OverflowError)"

definition parse_arguments ::
    "date \<Rightarrow> string \<Rightarrow> date_arg \<Rightarrow> date_arg \<Rightarrow> int \<Rightarrow> error + args" where
  "parse_arguments today usr start_date end_date days =
     (case (case end_date of
              Given d \<Rightarrow> Inr d
            | Unparsable \<Rightarrow> Inl ValueError
            | NotGiven \<Rightarrow> Inr today) of
        Inl e \<Rightarrow> Inl e
      | Inr end_dt \<Rightarrow>
          (case (case start_date of
                   Given d \<Rightarrow> Inr d
                 | Unparsable \<Rightarrow> Inl ValueError
                 | NotGiven \<Rightarrow> date_sub_days end_dt (days - 1)) of
             Inl e \<Rightarrow> Inl e
           | Inr start_dt \<Rightarrow>
               if date_gt start_dt end_dt then Inl SystemExit1
               else Inr \<lparr>user = usr, start_date_dt = start_dt, end_date_dt = end_dt\<rparr>))"

section \<open>The peer map: \<^verbatim>\<open>load_peer_map\<close>\<close>

text \<open>
  The JSON object is read as its items in order. Of each value only the outcome of
  \<^verbatim>\<open>'publicKey' in details\<close> and \<^verbatim>\<open>details['publicKey']\<close> matters: no such field,
  a string, or an exception (a value that is no object), which ends the loading with
  the map built so far. The argument is \<open>None\<close> when the file is missing or is not JSON.
\<close>

datatype details = NoPublicKey | PublicKey string | Raises

type_synonym peer_map = "string \<rightharpoonup> string"

fun load_items :: "(string \<times> details) list \<Rightarrow> peer_map \<Rightarrow> peer_map" where
  "load_items [] peer_map = peer_map"
| "load_items ((nm, NoPublicKey) # rest) peer_map = load_items rest peer_map"
| "load_items ((nm, PublicKey k) # rest) peer_map = load_items rest (peer_map(k \<mapsto> nm))"
| "load_items ((nm, Raises) # rest) peer_map = peer_map"

definition load_peer_map :: "(string \<times> details) list option \<Rightarrow> peer_map" where
  "load_peer_map data = (case data of None \<Rightarrow> Map.empty | Some items \<Rightarrow> load_items items Map.empty)"

section \<open>\<^verbatim>\<open>format_duration\<close>\<close>

text \<open>A \<^verbatim>\<open>timedelta\<close> between two whole-second timestamps is its number of seconds;
  \<open>None\<close> stands for the non-timedelta argument.\<close>

definition format_duration :: "int option \<Rightarrow> string" where
  "format_duration td =
     (case td of
        None \<Rightarrow> ''N/A''
      | Some total_seconds \<Rightarrow>
          (let hours = total_seconds div 3600; remainder = total_seconds mod 3600;
               minutes = remainder div 60; seconds = remainder mod 60
           in fmt_d 2 hours @ '':'' @ fmt_d 2 minutes @ '':'' @ fmt_d 2 seconds))"

section \<open>Log entries and the session state machine\<close>

record entry =
  timestamp :: datetime
  event :: string
  peer_key :: string
  peer_name :: string
  endpoint :: string

datatype status = disconnected | connected

record peer_state =
  status :: status
  session_start_time :: "datetime option"
  session_start_ip :: "string option"
  current_name :: string

text \<open>
  What the code has in hand when it appends a report row: the peer key (the row's
  commented-out \<^verbatim>\<open>_PeerKey\<close> column), the stored name, start time and endpoint, the end
  time, and which of the two \<^verbatim>\<open>sessions.append\<close> sites is running.
\<close>

record session =
  sess_key :: string
  sess_name :: string
  sess_start :: "datetime option"
  sess_end :: "datetime option"
  sess_ip :: "string option"
  sess_ongoing :: bool

record session_row =
  PeerName :: string
  SessionStart :: string
  SessionEnd :: string
  Duration :: string
  EndpointIP :: string

definition duration_of :: "datetime option \<Rightarrow> datetime option \<Rightarrow> int option" where
  "duration_of start_time end_time =
     (case (start_time, end_time) of
        (Some s, Some e) \<Rightarrow> Some (utc_seconds e - utc_seconds s)
      | _ \<Rightarrow> None)"

definition iso_or_na :: "datetime option \<Rightarrow> string" where
  "iso_or_na t = (case t of Some d \<Rightarrow> isoformat d | None \<Rightarrow> ''N/A'')"

definition ip_or_na :: "string option \<Rightarrow> string" where
  "ip_or_na ip = (case ip of Some a \<Rightarrow> (if a = [] then ''N/A'' else a) | None \<Rightarrow> ''N/A'')"

text \<open>The two dict literals of \<^verbatim>\<open>process_logs\<close>, for a completed and for an ongoing session.\<close>

definition session_row :: "session \<Rightarrow> session_row" where
  "session_row s =
     (if sess_ongoing s
      then \<lparr>PeerName = sess_name s,
            SessionStart = iso_or_na (sess_start s),
            SessionEnd = ''Ongoing (as of '' @ iso_or_na (sess_end s) @ '')'',
            Duration = format_duration (duration_of (sess_start s) (sess_end s)) @ '' (up to last log)'',
            EndpointIP = ip_or_na (sess_ip s)\<rparr>
      else \<lparr>PeerName = sess_name s,
            SessionStart = iso_or_na (sess_start s),
            SessionEnd = iso_or_na (sess_end s),
            Duration = format_duration (duration_of (sess_start s) (sess_end s)),
            EndpointIP = ip_or_na (sess_ip s)\<rparr>)"

text \<open>
  \<^verbatim>\<open>peer_states\<close> is a \<^verbatim>\<open>defaultdict\<close>: reading a missing key inserts the default state,
  and iteration follows insertion order. It is an association list; \<open>AList.update\<close>
  replaces in place or appends.
\<close>

type_synonym peer_states = "(string \<times> peer_state) list"

definition default_state :: peer_state where
  "default_state =
     \<lparr>status = disconnected, session_start_time = None, session_start_ip = None,
      current_name = ''Unknown''\<rparr>"

definition lookup_state :: "peer_states \<Rightarrow> string \<Rightarrow> peer_state" where
  "lookup_state peer_states k =
     (case map_of peer_states k of Some s \<Rightarrow> s | None \<Rightarrow> default_state)"

definition is_connect_event :: "entry \<Rightarrow> bool" where
  "is_connect_event e = (event e \<in> set [''CONNECT'', ''RECONNECT/UPDATE''])"

definition is_disconnect_event :: "entry \<Rightarrow> bool" where
  "is_disconnect_event e = prefix ''DISCONNECT'' (event e)"

text \<open>One iteration of \<^verbatim>\<open>for entry in log_entries\<close>.\<close>

definition process_entry ::
    "entry \<Rightarrow> peer_states \<times> session list \<Rightarrow> peer_states \<times> session list" where
  "process_entry e acc =
     (let (peer_states, sessions) = acc;
          k = peer_key e;
          state = lookup_state peer_states k;
          ts = timestamp e;
          state = (if peer_name e \<noteq> ''Unknown''
                   then state\<lparr>current_name := peer_name e\<rparr> else state)
      in if is_connect_event e then
           (if status state = disconnected then
              (let state = state\<lparr>status := connected, session_start_time := Some ts,
                                  session_start_ip := Some (endpoint e)\<rparr>;
                   state = (if current_name state = ''Unknown'' \<and> peer_name e \<noteq> ''Unknown''
                            then state\<lparr>current_name := peer_name e\<rparr> else state)
               in (AList.update k state peer_states, sessions))
            else (AList.update k state peer_states, sessions))
         else if is_disconnect_event e then
           (if status state = connected then
              (AList.update k
                 (state\<lparr>status := disconnected, session_start_time := None,
                        session_start_ip := None\<rparr>) peer_states,
               sessions @
                 [\<lparr>sess_key = k, sess_name = current_name state,
                   sess_start = session_start_time state, sess_end = Some ts,
                   sess_ip = session_start_ip state, sess_ongoing = False\<rparr>])
            else (AList.update k state peer_states, sessions))
         else (AList.update k state peer_states, sessions))"

text \<open>The closing loop over \<^verbatim>\<open>peer_states.items()\<close>.\<close>

definition ongoing_sessions :: "datetime option \<Rightarrow> peer_states \<Rightarrow> session list" where
  "ongoing_sessions last_log_time peer_states =
     map (\<lambda>(k, state).
            \<lparr>sess_key = k, sess_name = current_name state,
             sess_start = session_start_time state, sess_end = last_log_time,
             sess_ip = session_start_ip state, sess_ongoing = True\<rparr>)
       (filter (\<lambda>(k, state). status state = connected) peer_states)"

text \<open>From \<^verbatim>\<open>log_entries.sort\<close> to the end of \<^verbatim>\<open>process_logs\<close>, on a non-empty or empty list
  of entries; the sort is stable and orders by instant.\<close>

definition calculate_sessions :: "entry list \<Rightarrow> session list" where
  "calculate_sessions log_entries =
     (let sorted_entries = sort_key (\<lambda>x. utc_seconds (timestamp x)) log_entries;
          last_log_time = (if sorted_entries \<noteq> [] then Some (timestamp (last sorted_entries))
                           else None);
          (peer_states, sessions) = fold process_entry sorted_entries ([], [])
      in sessions @ ongoing_sessions last_log_time peer_states)"

section \<open>Reading the log files\<close>

text \<open>
  A line is what \<^verbatim>\<open>LOG_PATTERN.match\<close> and the timestamp parse make of it: no match, or
  the five groups, the first already parsed (\<open>None\<close> when \<^verbatim>\<open>fromisoformat\<close> raises
  \<^verbatim>\<open>ValueError\<close>). A file is its path, the lines it delivers, and whether opening or
  reading it raises an exception once those lines are delivered.
\<close>

datatype line = NoMatch | Match "datetime option" string string string string

record log_file =
  path :: string
  lines_read :: "line list"
  read_error :: bool

text \<open>\<^verbatim>\<open>event.split()[0]\<close>: the first run of non-whitespace characters; \<^verbatim>\<open>IndexError\<close>
  when there is none. A character is a code point below 256; the whitespace among them
  is what \<^verbatim>\<open>str.split\<close> and \<^verbatim>\<open>str.isspace\<close> take as such: 9 to 13, 28 to 32, 133 and 160.\<close>

definition is_space :: "char \<Rightarrow> bool" where
  "is_space c = (of_char c \<in> set [9, 10, 11, 12, 13, 28, 29, 30, 31, 32, 133, 160 :: nat])"

definition split_first :: "string \<Rightarrow> error + string" where
  "split_first s =
     (let w = takeWhile (\<lambda>c. \<not> is_space c) (dropWhile is_space s)
      in if w = [] then Inl IndexError else Inr w)"

definition in_date_range :: "args \<Rightarrow> datetime \<Rightarrow> bool" where
  "in_date_range a t = (date_le (start_date_dt a) (date t) \<and> date_le (date t) (end_date_dt a))"

definition resolve_name :: "peer_map \<Rightarrow> string \<Rightarrow> string \<Rightarrow> string" where
  "resolve_name peer_map k name_from_log =
     (case peer_map k of Some n \<Rightarrow> n | None \<Rightarrow> name_from_log)"

text \<open>
  The body of \<^verbatim>\<open>for line in f\<close>: \<open>Inr None\<close> when the line is skipped, \<open>Inr (Some e)\<close>
  when \<open>e\<close> is appended to \<^verbatim>\<open>log_entries\<close>, \<open>Inl\<close> when an exception leaves the loop.
\<close>

definition process_line :: "args \<Rightarrow> peer_map \<Rightarrow> line \<Rightarrow> error + entry option" where
  "process_line a peer_map l =
     (case l of
        NoMatch \<Rightarrow> Inr None
      | Match timestamp_dt ev name_from_log k ip \<Rightarrow>
          (case timestamp_dt of
             None \<Rightarrow> Inr None
           | Some t \<Rightarrow>
               if \<not> in_date_range a t then Inr None
               else
                 let pn = resolve_name peer_map k name_from_log
                 in if user a \<noteq> ''all'' \<and> pn \<noteq> user a then Inr None
                    else
                      (case split_first ev of
                         Inl err \<Rightarrow> Inl err
                       | Inr ev0 \<Rightarrow>
                           Inr (Some \<lparr>timestamp = t, event = ev0, peer_key = k,
                                      peer_name = pn, endpoint = ip\<rparr>))))"

text \<open>The lines of one file: the entries collected so far (kept when an exception
  leaves the loop, since the list is extended in place) and whether one did.\<close>

fun process_lines :: "args \<Rightarrow> peer_map \<Rightarrow> line list \<Rightarrow> entry list \<Rightarrow> entry list \<times> bool" where
  "process_lines a peer_map [] log_entries = (log_entries, False)"
| "process_lines a peer_map (l # ls) log_entries =
     (case process_line a peer_map l of
        Inl err \<Rightarrow> (log_entries, True)
      | Inr None \<Rightarrow> process_lines a peer_map ls log_entries
      | Inr (Some e) \<Rightarrow> process_lines a peer_map ls (log_entries @ [e]))"

text \<open>The \<^verbatim>\<open>try\<close> block of one file, with its \<^verbatim>\<open>except Exception\<close>.\<close>

definition process_file ::
    "args \<Rightarrow> peer_map \<Rightarrow> log_file \<Rightarrow> entry list \<times> nat \<Rightarrow> entry list \<times> nat" where
  "process_file a peer_map f acc =
     (let (log_entries, processed_files) = acc;
          (log_entries, raised) = process_lines a peer_map (lines_read f) log_entries
      in if raised \<or> read_error f then (log_entries, processed_files)
         else (log_entries, processed_files + 1))"

text \<open>\<^verbatim>\<open>sorted(log_files, reverse=True)\<close>: descending by path, equal paths in their order.\<close>

definition sorted_reverse :: "log_file list \<Rightarrow> log_file list" where
  "sorted_reverse log_files = rev (sort_key path (rev log_files))"

definition read_log_files :: "args \<Rightarrow> peer_map \<Rightarrow> log_file list \<Rightarrow> entry list \<times> nat" where
  "read_log_files a peer_map log_files =
     fold (process_file a peer_map) (sorted_reverse log_files) ([], 0)"

text \<open>\<^verbatim>\<open>process_logs\<close>, on the files the glob found, before the rows are rendered.\<close>

definition process_logs_sessions ::
    "args \<Rightarrow> peer_map \<Rightarrow> log_file list \<Rightarrow> error + session list" where
  "process_logs_sessions a peer_map log_files =
     (let (log_entries, processed_files) = read_log_files a peer_map log_files
      in if processed_files = 0 then Inl SystemExit1
         else if log_entries = [] then Inr []
         else Inr (calculate_sessions log_entries))"

definition process_logs :: "args \<Rightarrow> peer_map \<Rightarrow> log_file list \<Rightarrow> error + session_row list" where
  "process_logs a peer_map log_files =
     (case process_logs_sessions a peer_map log_files of
        Inl err \<Rightarrow> Inl err
      | Inr sessions \<Rightarrow> Inr (map session_row sessions))"

section \<open>Derived notions for the proofs\<close>

text \<open>
  The effect of one entry on the state of its own peer, and the session it appends, read
  off \<open>process_entry\<close> (\<open>process_entry_eq\<close> below links them to it).
\<close>

definition adopt_name :: "entry \<Rightarrow> peer_state \<Rightarrow> peer_state" where
  "adopt_name e s = (if peer_name e \<noteq> ''Unknown'' then s\<lparr>current_name := peer_name e\<rparr> else s)"

definition next_state :: "entry \<Rightarrow> peer_state \<Rightarrow> peer_state" where
  "next_state e s =
     (if is_connect_event e then
        (if status s = disconnected
         then (adopt_name e s)\<lparr>status := connected, session_start_time := Some (timestamp e),
                                session_start_ip := Some (endpoint e)\<rparr>
         else adopt_name e s)
      else if is_disconnect_event e \<and> status s = connected
      then (adopt_name e s)\<lparr>status := disconnected, session_start_time := None,
                             session_start_ip := None\<rparr>
      else adopt_name e s)"

definition emitted :: "entry \<Rightarrow> peer_state \<Rightarrow> session list" where
  "emitted e s =
     (if \<not> is_connect_event e \<and> is_disconnect_event e \<and> status s = connected
      then [\<lparr>sess_key = peer_key e, sess_name = current_name (adopt_name e s),
             sess_start = session_start_time s, sess_end = Some (timestamp e),
             sess_ip = session_start_ip s, sess_ongoing = False\<rparr>]
      else [])"

text \<open>The completed sessions of one peer, from the entries of that peer alone.\<close>

fun peer_sessions :: "entry list \<Rightarrow> peer_state \<Rightarrow> session list" where
  "peer_sessions [] s = []"
| "peer_sessions (e # es) s = emitted e s @ peer_sessions es (next_state e s)"

text \<open>The entries of peer \<open>k\<close>, and the sessions of peer \<open>k\<close>.\<close>

definition entries_of :: "string \<Rightarrow> entry list \<Rightarrow> entry list" where
  "entries_of k es = filter (\<lambda>e. peer_key e = k) es"

definition sessions_of :: "string \<Rightarrow> session list \<Rightarrow> session list" where
  "sessions_of k ss = filter (\<lambda>x. sess_key x = k) ss"

text \<open>The sorted stream the state machine consumes, and its watermark.\<close>

definition sorted_entries :: "entry list \<Rightarrow> entry list" where
  "sorted_entries log_entries = sort_key (\<lambda>x. utc_seconds (timestamp x)) log_entries"

definition watermark :: "entry list \<Rightarrow> datetime option" where
  "watermark log_entries =
     (if sorted_entries log_entries \<noteq> [] then Some (timestamp (last (sorted_entries log_entries)))
      else None)"

text \<open>The instants that bound a list of sessions, in the order of the list: start and
  end of the first, start and end of the second, and so on.\<close>

fun bounds :: "session list \<Rightarrow> int list" where
  "bounds [] = []"
| "bounds (x # xs) =
     (case sess_start x of Some t \<Rightarrow> [utc_seconds t] | None \<Rightarrow> []) @
     (case sess_end x of Some t \<Rightarrow> [utc_seconds t] | None \<Rightarrow> []) @ bounds xs"

text \<open>A block of one peer's stream: a connect-class entry, further entries none of which
  is disconnect-class, and the disconnect-class entry that ends it.\<close>

definition block_ok :: "entry \<times> entry list \<times> entry \<Rightarrow> bool" where
  "block_ok b =
     (case b of (c, xs, d) \<Rightarrow>
        is_connect_event c \<and> list_all (\<lambda>x. \<not> is_disconnect_event x) xs \<and> is_disconnect_event d)"

definition block_entries :: "entry \<times> entry list \<times> entry \<Rightarrow> entry list" where
  "block_entries b = (case b of (c, xs, d) \<Rightarrow> c # xs @ [d])"

text \<open>The name a peer's entries leave behind: the last one that is not \<^verbatim>\<open>"Unknown"\<close>.\<close>

definition last_known_name :: "string \<Rightarrow> entry list \<Rightarrow> string" where
  "last_known_name init es =
     (let ns = filter (\<lambda>n. n \<noteq> ''Unknown'') (map peer_name es)
      in if ns = [] then init else last ns)"

text \<open>What one file contributes, read on its own: its entries, and whether its
  \<^verbatim>\<open>try\<close> block ends in the \<^verbatim>\<open>except\<close> branch.\<close>

definition file_entries :: "args \<Rightarrow> peer_map \<Rightarrow> log_file \<Rightarrow> entry list" where
  "file_entries a peer_map f = fst (process_lines a peer_map (lines_read f) [])"

definition file_fails :: "args \<Rightarrow> peer_map \<Rightarrow> log_file \<Rightarrow> bool" where
  "file_fails a peer_map f = (snd (process_lines a peer_map (lines_read f) []) \<or> read_error f)"

text \<open>The open session of peer \<open>k\<close>, if its final state is connected.\<close>

definition ongoing_of :: "string \<Rightarrow> datetime option \<Rightarrow> peer_state \<Rightarrow> session list" where
  "ongoing_of k last_log_time s =
     (if status s = connected
      then [\<lparr>sess_key = k, sess_name = current_name s, sess_start = session_start_time s,
             sess_end = last_log_time, sess_ip = session_start_ip s, sess_ongoing = True\<rparr>]
      else [])"

text \<open>A connected state holds the time and endpoint of a connect-class entry of \<open>C\<close>.\<close>

definition started_by :: "entry set \<Rightarrow> peer_state \<Rightarrow> bool" where
  "started_by C s =
     (status s = connected \<longrightarrow>
        (\<exists>c\<in>C. is_connect_event c \<and> session_start_time s = Some (timestamp c) \<and>
                session_start_ip s = Some (endpoint c)))"

text \<open>The state of peer \<open>k\<close> once the sorted stream is exhausted.\<close>

definition final_state :: "entry list \<Rightarrow> string \<Rightarrow> peer_state" where
  "final_state log_entries k =
     lookup_state (fst (fold process_entry (sorted_entries log_entries) ([], []))) k"

text \<open>Session \<open>x\<close> ends no later than session \<open>y\<close> starts; session \<open>x\<close> starts no later
  than it ends. Both fail when a time is missing.\<close>

definition ends_before :: "session \<Rightarrow> session \<Rightarrow> bool" where
  "ends_before x y =
     (case (sess_end x, sess_start y) of
        (Some a, Some b) \<Rightarrow> utc_seconds a \<le> utc_seconds b
      | _ \<Rightarrow> False)"

definition starts_before_end :: "session \<Rightarrow> bool" where
  "starts_before_end x =
     (case (sess_start x, sess_end x) of
        (Some a, Some b) \<Rightarrow> utc_seconds a \<le> utc_seconds b
      | _ \<Rightarrow> False)"

text \<open>Sample data for the worked examples: times of day on 2024-03-10 at UTC+08:00, and
  entries from one endpoint.\<close>

definition at_time :: "int \<Rightarrow> int \<Rightarrow> int \<Rightarrow> datetime" where
  "at_time h m s =
     \<lparr>date = \<lparr>year = 2024, month = 3, day = 10\<rparr>, hour = h, minute = m, second = s,
      utcoffset = 480\<rparr>"

definition log_entry :: "datetime \<Rightarrow> string \<Rightarrow> string \<Rightarrow> string \<Rightarrow> entry" where
  "log_entry t ev k nm =
     \<lparr>timestamp = t, event = ev, peer_key = k, peer_name = nm, endpoint = ''203.0.113.7''\<rparr>"

section \<open>Lemmas about the state machine\<close>

lemma connect_not_disconnect: "is_connect_event e \<Longrightarrow> \<not> is_disconnect_event e"
  by (auto simp: is_connect_event_def is_disconnect_event_def)

lemma process_entry_eq:
  "process_entry e (ps, ss) =
     (AList.update (peer_key e) (next_state e (lookup_state ps (peer_key e))) ps,
      ss @ emitted e (lookup_state ps (peer_key e)))"
  by (simp add: process_entry_def next_state_def emitted_def adopt_name_def Let_def)

lemma lookup_state_update:
  "lookup_state (AList.update k v ps) k' = (if k' = k then v else lookup_state ps k')"
  by (simp add: lookup_state_def update_conv')

lemma sessions_of_append [simp]: "sessions_of k (xs @ ys) = sessions_of k xs @ sessions_of k ys"
  by (simp add: sessions_of_def)

lemma sessions_of_Nil [simp]: "sessions_of k [] = []"
  by (simp add: sessions_of_def)

lemma sessions_of_emitted:
  "sessions_of k (emitted e s) = (if peer_key e = k then emitted e s else [])"
  by (simp add: sessions_of_def emitted_def)

lemma fold_process_entry_peer:
  "fold process_entry es (ps, ss) = (ps', ss') \<Longrightarrow>
     lookup_state ps' k = fold next_state (entries_of k es) (lookup_state ps k) \<and>
     sessions_of k ss' = sessions_of k ss @ peer_sessions (entries_of k es) (lookup_state ps k)"
proof (induction es arbitrary: ps ss)
  case Nil
  then show ?case by (simp add: entries_of_def)
next
  case (Cons e es)
  from Cons.prems have
    "fold process_entry es
       (AList.update (peer_key e) (next_state e (lookup_state ps (peer_key e))) ps,
        ss @ emitted e (lookup_state ps (peer_key e))) = (ps', ss')"
    by (simp add: process_entry_eq)
  from Cons.IH [OF this] show ?case
    by (simp add: lookup_state_update sessions_of_emitted entries_of_def)
qed

lemma fold_process_entry_keys:
  "fold process_entry es (ps, ss) = (ps', ss') \<Longrightarrow>
     distinct (map fst ps) \<Longrightarrow> distinct (map fst ps')"
proof (induction es arbitrary: ps ss)
  case Nil
  then show ?case by simp
next
  case (Cons e es)
  from Cons.prems(1) have
    "fold process_entry es
       (AList.update (peer_key e) (next_state e (lookup_state ps (peer_key e))) ps,
        ss @ emitted e (lookup_state ps (peer_key e))) = (ps', ss')"
    by (simp add: process_entry_eq)
  from Cons.IH [OF this] Cons.prems(2) show ?case
    by (simp add: distinct_update)
qed

lemma filter_key_distinct:
  "distinct (map fst ps) \<Longrightarrow>
     filter (\<lambda>(k', s). k' = k) ps = (case map_of ps k of None \<Rightarrow> [] | Some s \<Rightarrow> [(k, s)])"
proof (induction ps)
  case Nil
  then show ?case by simp
next
  case (Cons p ps)
  obtain k' s where p: "p = (k', s)" by (cases p)
  show ?case
  proof (cases "k' = k")
    case True
    with Cons.prems p have "map_of ps k = None"
      by (simp add: map_of_eq_None_iff)
    with Cons True p show ?thesis by simp
  next
    case False
    with Cons p show ?thesis by simp
  qed
qed

lemma sessions_of_ongoing:
  assumes "distinct (map fst ps)"
  shows "sessions_of k (ongoing_sessions w ps) = ongoing_of k w (lookup_state ps k)"
proof -
  let ?mk = "\<lambda>(k, state). \<lparr>sess_key = k, sess_name = current_name state,
             sess_start = session_start_time state, sess_end = w,
             sess_ip = session_start_ip state, sess_ongoing = True\<rparr>"
  have "sessions_of k (ongoing_sessions w ps) =
        map ?mk (filter (\<lambda>(k', s). status s = connected) (filter (\<lambda>(k', s). k' = k) ps))"
    unfolding sessions_of_def ongoing_sessions_def filter_map
    by (rule arg_cong [where f = "map ?mk"]) (auto simp: comp_def intro!: filter_cong)
  also have "\<dots> = ongoing_of k w (lookup_state ps k)"
    by (simp add: filter_key_distinct [OF assms] lookup_state_def ongoing_of_def default_state_def
             split: option.splits)
  finally show ?thesis .
qed

lemma entries_of_sorted:
  "entries_of k (sorted_entries es) = sorted_entries (entries_of k es)"
  by (simp add: entries_of_def sorted_entries_def filter_sort)

lemma calculate_sessions_peer:
  "sessions_of k (calculate_sessions es) =
     peer_sessions (entries_of k (sorted_entries es)) default_state @
     ongoing_of k (watermark es) (fold next_state (entries_of k (sorted_entries es)) default_state)"
proof -
  obtain ps ss where f: "fold process_entry (sorted_entries es) ([], []) = (ps, ss)"
    by (cases "fold process_entry (sorted_entries es) ([], [])")
  have d: "distinct (map fst ps)"
    using fold_process_entry_keys [OF f] by simp
  have l: "lookup_state [] k = default_state" by (simp add: lookup_state_def)
  have c: "calculate_sessions es = ss @ ongoing_sessions (watermark es) ps"
    using f by (simp add: calculate_sessions_def sorted_entries_def watermark_def Let_def)
  have o: "sessions_of k (ongoing_sessions (watermark es) ps) =
      ongoing_of k (watermark es) (lookup_state ps k)"
    by (rule sessions_of_ongoing [OF d])
  show ?thesis
    using fold_process_entry_peer [OF f, of k]
    by (simp add: c o l)
qed

lemma adopt_name_fields [simp]:
  "status (adopt_name e s) = status s"
  "session_start_time (adopt_name e s) = session_start_time s"
  "session_start_ip (adopt_name e s) = session_start_ip s"
  by (simp_all add: adopt_name_def)

lemma current_name_adopt:
  "current_name (adopt_name e s) = (if peer_name e \<noteq> ''Unknown'' then peer_name e else current_name s)"
  by (simp add: adopt_name_def)

lemma current_name_next_state [simp]:
  "current_name (next_state e s) = current_name (adopt_name e s)"
  by (simp add: next_state_def)

lemma no_connect_run:
  "list_all (\<lambda>e. \<not> is_connect_event e) es \<Longrightarrow> status s = disconnected \<Longrightarrow>
     peer_sessions es s = [] \<and> status (fold next_state es s) = disconnected \<and>
     session_start_time (fold next_state es s) = session_start_time s \<and>
     session_start_ip (fold next_state es s) = session_start_ip s"
proof (induction es arbitrary: s)
  case Nil
  then show ?case by simp
next
  case (Cons e es)
  from Cons.prems have n: "next_state e s = adopt_name e s"
    by (simp add: next_state_def)
  from Cons.prems have m: "emitted e s = []"
    by (simp add: emitted_def)
  from Cons.prems have "list_all (\<lambda>e. \<not> is_connect_event e) es" by simp
  from Cons.IH [OF this, of "adopt_name e s"] Cons.prems(2) show ?case
    by (simp add: n m)
qed

lemma last_known_name_Cons:
  "last_known_name init (e # es) =
     last_known_name (if peer_name e \<noteq> ''Unknown'' then peer_name e else init) es"
  by (simp add: last_known_name_def Let_def)

lemma current_name_fold:
  "current_name (fold next_state es s) = last_known_name (current_name s) es"
proof (induction es arbitrary: s)
  case Nil
  then show ?case by (simp add: last_known_name_def)
next
  case (Cons e es)
  show ?case
    by (simp add: Cons.IH last_known_name_Cons current_name_adopt)
qed

lemma last_known_name_known:
  "init \<noteq> ''Unknown'' \<Longrightarrow> last_known_name init es \<noteq> ''Unknown''"
proof -
  assume i: "init \<noteq> ''Unknown''"
  let ?ns = "filter (\<lambda>n. n \<noteq> ''Unknown'') (map peer_name es)"
  show ?thesis
  proof (cases "?ns = []")
    case True
    with i show ?thesis by (simp add: last_known_name_def)
  next
    case False
    then have "last ?ns \<in> set ?ns" by (rule last_in_set)
    then have "last ?ns \<noteq> ''Unknown''" by simp
    with False show ?thesis by (simp add: last_known_name_def Let_def)
  qed
qed

lemma started_by_next:
  "started_by C s \<Longrightarrow> e \<in> C \<Longrightarrow> started_by C (next_state e s)"
  by (auto simp: started_by_def next_state_def)

lemma emitted_started:
  "started_by C s \<Longrightarrow> x \<in> set (emitted e s) \<Longrightarrow>
     \<exists>c\<in>C. is_connect_event c \<and> sess_start x = Some (timestamp c) \<and> sess_ip x = Some (endpoint c)"
  by (auto simp: started_by_def emitted_def split: if_splits)

lemma peer_sessions_started:
  "started_by C s \<Longrightarrow> set es \<subseteq> C \<Longrightarrow>
     (\<forall>x\<in>set (peer_sessions es s).
        \<exists>c\<in>C. is_connect_event c \<and> sess_start x = Some (timestamp c) \<and> sess_ip x = Some (endpoint c))
     \<and> started_by C (fold next_state es s)"
proof (induction es arbitrary: s)
  case Nil
  then show ?case by simp
next
  case (Cons e es)
  from Cons.prems have n: "started_by C (next_state e s)"
    by (simp add: started_by_next)
  from Cons.prems have "set es \<subseteq> C" by simp
  from Cons.IH [OF n this] emitted_started [OF Cons.prems(1)] show ?case
    by auto
qed

lemma bounds_append [simp]: "bounds (xs @ ys) = bounds xs @ bounds ys"
  by (induction xs) (auto split: option.splits)

lemma sorted_lower: "sorted (a # xs) \<Longrightarrow> (L::int) \<le> a \<Longrightarrow> sorted (L # xs)"
  by auto

lemma bounds_sorted:
  assumes "sorted (map (\<lambda>e. utc_seconds (timestamp e)) es)"
    and "\<forall>e\<in>set es. L \<le> utc_seconds (timestamp e) \<and> utc_seconds (timestamp e) \<le> utc_seconds w"
    and "L \<le> utc_seconds w"
    and "status s = connected \<longrightarrow> map_option utc_seconds (session_start_time s) = Some L"
  shows "sorted (L # bounds (peer_sessions es s @ ongoing_of k (Some w) (fold next_state es s)))"
  using assms
proof (induction es arbitrary: s L)
  case Nil
  then show ?case by (auto simp: ongoing_of_def split: option.splits)
next
  case (Cons e es)
  let ?t = "utc_seconds (timestamp e)"
  from Cons.prems have s: "sorted (map (\<lambda>e. utc_seconds (timestamp e)) es)"
    and lt: "L \<le> ?t" and tw: "?t \<le> utc_seconds w"
    and later: "\<forall>e'\<in>set es. ?t \<le> utc_seconds (timestamp e') \<and> utc_seconds (timestamp e') \<le> utc_seconds w"
    and lower: "\<forall>e'\<in>set es. L \<le> utc_seconds (timestamp e') \<and> utc_seconds (timestamp e') \<le> utc_seconds w"
    by auto
  have stay_if: "\<not> (is_connect_event e \<and> status s = disconnected) \<Longrightarrow>
      \<not> (\<not> is_connect_event e \<and> is_disconnect_event e \<and> status s = connected) \<Longrightarrow>
      next_state e s = adopt_name e s \<and> emitted e s = []"
    by (cases "status s") (auto simp: next_state_def emitted_def)
  consider (start) "is_connect_event e" "status s = disconnected"
    | (finish) "\<not> is_connect_event e" "is_disconnect_event e" "status s = connected"
    | (stay) "next_state e s = adopt_name e s" "emitted e s = []"
    using stay_if by blast
  then show ?case
  proof cases
    case start
    then have n: "status (next_state e s) = connected \<longrightarrow>
        map_option utc_seconds (session_start_time (next_state e s)) = Some ?t"
      by (simp add: next_state_def)
    from start have m: "emitted e s = []" by (simp add: emitted_def)
    from Cons.IH [OF s later tw n] have "sorted (?t # bounds (peer_sessions es (next_state e s) @
        ongoing_of k (Some w) (fold next_state es (next_state e s))))" .
    from sorted_lower [OF this lt] show ?thesis by (simp add: m)
  next
    case finish
    with Cons.prems(4) obtain t0 where t0: "session_start_time s = Some t0" "utc_seconds t0 = L"
      by auto
    from finish have n: "status (next_state e s) = connected \<longrightarrow>
        map_option utc_seconds (session_start_time (next_state e s)) = Some ?t"
      by (simp add: next_state_def)
    from finish t0 have m: "bounds (emitted e s) = [L, ?t]" by (simp add: emitted_def)
    let ?R = "bounds (peer_sessions es (next_state e s) @
        ongoing_of k (Some w) (fold next_state es (next_state e s)))"
    from Cons.IH [OF s later tw n] have A: "sorted (?t # ?R)" .
    have B: "sorted (L # ?t # ?R)"
      using sorted_lower [OF A lt] A lt by simp
    then have "sorted (L # [L, ?t] @ ?R)" by simp
    then show ?thesis by (simp add: m)
  next
    case stay
    from Cons.prems(4) have n: "status (next_state e s) = connected \<longrightarrow>
        map_option utc_seconds (session_start_time (next_state e s)) = Some L"
      by (simp add: stay)
    from Cons.IH [OF s lower Cons.prems(3) n] show ?thesis by (simp add: stay)
  qed
qed

lemma sorted_le_last: "sorted xs \<Longrightarrow> (x::int) \<in> set xs \<Longrightarrow> x \<le> last xs"
  by (induction xs) auto

lemma watermark_max:
  assumes "e \<in> set es"
  shows "\<exists>w. watermark es = Some w \<and> utc_seconds (timestamp e) \<le> utc_seconds w"
proof -
  let ?f = "\<lambda>x. utc_seconds (timestamp x)"
  let ?s = "sorted_entries es"
  have mem: "e \<in> set ?s" using assms by (simp add: sorted_entries_def)
  then have ne: "?s \<noteq> []" by auto
  have "sorted (map ?f ?s)" by (simp add: sorted_entries_def)
  moreover have "?f e \<in> set (map ?f ?s)" using mem by simp
  ultimately have "?f e \<le> last (map ?f ?s)" by (rule sorted_le_last)
  then have "?f e \<le> ?f (last ?s)" using ne by (simp add: last_map)
  with ne show ?thesis by (simp add: watermark_def)
qed

lemma entries_of_set: "set (entries_of k es) = {e \<in> set es. peer_key e = k}"
  by (auto simp: entries_of_def)

lemma set_sorted_entries [simp]: "set (sorted_entries es) = set es"
  by (simp add: sorted_entries_def)

lemma process_logs_returns:
  "snd (read_log_files a peer_map log_files) \<noteq> 0 \<Longrightarrow>
     \<exists>rows. process_logs a peer_map log_files = Inr rows"
  by (cases "read_log_files a peer_map log_files")
     (simp add: process_logs_def process_logs_sessions_def)

lemma started_by_default: "started_by C default_state"
  by (simp add: started_by_def default_state_def)

lemma session_row_start:
  "sess_start x = Some t \<Longrightarrow> SessionStart (session_row x) = isoformat t"
  by (simp add: session_row_def iso_or_na_def)

lemma session_row_ip:
  "sess_ip x = Some ip \<Longrightarrow> ip \<noteq> [] \<Longrightarrow> EndpointIP (session_row x) = ip"
  by (simp add: session_row_def ip_or_na_def)

lemma ongoing_of_mem:
  "x \<in> set (ongoing_of k w s) \<Longrightarrow>
     status s = connected \<and> sess_key x = k \<and> sess_name x = current_name s \<and>
     sess_start x = session_start_time s \<and> sess_end x = w \<and>
     sess_ip x = session_start_ip s \<and> sess_ongoing x"
  by (cases "status s") (simp_all add: ongoing_of_def)

lemma calculate_sessions_started:
  assumes "x \<in> set (calculate_sessions es)"
  shows "\<exists>c\<in>set es. is_connect_event c \<and> peer_key c = sess_key x \<and>
           sess_start x = Some (timestamp c) \<and> sess_ip x = Some (endpoint c)"
proof -
  let ?k = "sess_key x"
  let ?E = "entries_of ?k (sorted_entries es)"
  let ?C = "set ?E"
  from assms have "x \<in> set (sessions_of ?k (calculate_sessions es))"
    by (simp add: sessions_of_def)
  then have mem: "x \<in> set (peer_sessions ?E default_state) \<or>
      x \<in> set (ongoing_of ?k (watermark es) (fold next_state ?E default_state))"
    by (simp add: calculate_sessions_peer)
  note p = peer_sessions_started [OF started_by_default subset_refl, of ?E]
  have "\<exists>c\<in>?C. is_connect_event c \<and> sess_start x = Some (timestamp c) \<and> sess_ip x = Some (endpoint c)"
  proof (cases "x \<in> set (peer_sessions ?E default_state)")
    case True
    with p show ?thesis by blast
  next
    case False
    with mem have o: "x \<in> set (ongoing_of ?k (watermark es) (fold next_state ?E default_state))"
      by simp
    let ?s = "fold next_state ?E default_state"
    from p have sb: "started_by ?C ?s" by simp
    from ongoing_of_mem [OF o] have st: "status ?s = connected"
      and xs: "sess_start x = session_start_time ?s" "sess_ip x = session_start_ip ?s"
      by simp_all
    from sb st obtain c where "c \<in> ?C" "is_connect_event c"
      "session_start_time ?s = Some (timestamp c)" "session_start_ip ?s = Some (endpoint c)"
      unfolding started_by_def by blast
    with xs show ?thesis by auto
  qed
  then show ?thesis by (auto simp: entries_of_set)
qed

lemma peer_sessions_mem:
  "x \<in> set (peer_sessions es s) \<Longrightarrow>
     \<exists>e\<in>set es. sess_end x = Some (timestamp e) \<and> sess_key x = peer_key e \<and> \<not> sess_ongoing x"
proof (induction es arbitrary: s)
  case Nil
  then show ?case by simp
next
  case (Cons e es)
  then show ?case
    by (fastforce simp: emitted_def split: if_splits)
qed

lemma fold_next_state_Nil_status:
  "status (fold next_state es default_state) = connected \<Longrightarrow> es \<noteq> []"
  by (auto simp: default_state_def)

lemma calculate_sessions_end:
  assumes "x \<in> set (calculate_sessions es)"
  shows "sess_end x \<noteq> None"
proof -
  let ?k = "sess_key x"
  let ?E = "entries_of ?k (sorted_entries es)"
  from assms have "x \<in> set (sessions_of ?k (calculate_sessions es))"
    by (simp add: sessions_of_def)
  then have mem: "x \<in> set (peer_sessions ?E default_state) \<or>
      x \<in> set (ongoing_of ?k (watermark es) (fold next_state ?E default_state))"
    by (simp add: calculate_sessions_peer)
  show ?thesis
  proof (cases "x \<in> set (peer_sessions ?E default_state)")
    case True
    from peer_sessions_mem [OF this] show ?thesis by auto
  next
    case False
    with mem have o: "x \<in> set (ongoing_of ?k (watermark es) (fold next_state ?E default_state))"
      by simp
    from ongoing_of_mem [OF o] have st: "status (fold next_state ?E default_state) = connected"
      and e: "sess_end x = watermark es" by simp_all
    from fold_next_state_Nil_status [OF st] obtain e' where "e' \<in> set ?E"
      by (cases ?E) auto
    then have "e' \<in> set es" by (simp add: entries_of_set)
    from watermark_max [OF this] e show ?thesis by auto
  qed
qed

lemma bounds_length:
  "\<forall>x\<in>set xs. sess_start x \<noteq> None \<and> sess_end x \<noteq> None \<Longrightarrow> length (bounds xs) = 2 * length xs"
  by (induction xs) auto

lemma bounds_mem_start:
  "y \<in> set xs \<Longrightarrow> sess_start y = Some b \<Longrightarrow> utc_seconds b \<in> set (bounds xs)"
  by (induction xs) (auto split: option.splits)

lemma sorted_bounds_pairwise:
  "\<forall>x\<in>set xs. sess_start x \<noteq> None \<and> sess_end x \<noteq> None \<Longrightarrow> sorted (bounds xs) \<Longrightarrow>
     sorted_wrt ends_before xs \<and> list_all starts_before_end xs"
proof (induction xs)
  case Nil
  then show ?case by simp
next
  case (Cons x xs)
  from Cons.prems(1) obtain a b where ab: "sess_start x = Some a" "sess_end x = Some b"
    by auto
  from Cons.prems(2) ab have s: "sorted (utc_seconds a # utc_seconds b # bounds xs)"
    by simp
  then have t: "sorted (bounds xs)" and le: "utc_seconds a \<le> utc_seconds b"
    and all: "\<forall>z\<in>set (bounds xs). utc_seconds b \<le> z"
    by auto
  from Cons.prems(1) have "\<forall>x\<in>set xs. sess_start x \<noteq> None \<and> sess_end x \<noteq> None" by simp
  from Cons.IH [OF this t] have ih: "sorted_wrt ends_before xs" "list_all starts_before_end xs"
    by simp_all
  have "ends_before x y" if "y \<in> set xs" for y
  proof -
    from that Cons.prems(1) obtain c where c: "sess_start y = Some c" by auto
    from bounds_mem_start [OF that c] all have "utc_seconds b \<le> utc_seconds c" by simp
    with ab c show ?thesis by (simp add: ends_before_def)
  qed
  moreover from le ab have "starts_before_end x" by (simp add: starts_before_end_def)
  ultimately show ?case using ih by simp
qed

lemma sorted_hd_min: "sorted (map f (x # xs)) \<Longrightarrow> \<forall>y\<in>set (x # xs). (f x :: int) \<le> f y"
  by auto

lemma peer_bounds_sorted:
  "sorted (bounds (sessions_of k (calculate_sessions es)))"
proof -
  let ?f = "\<lambda>e. utc_seconds (timestamp e)"
  let ?E = "entries_of k (sorted_entries es)"
  show ?thesis
  proof (cases ?E)
    case Nil
    then show ?thesis
      by (simp add: calculate_sessions_peer ongoing_of_def default_state_def)
  next
    case (Cons e0 E')
    then have e0: "e0 \<in> set ?E" by simp
    then have "e0 \<in> set es" by (simp add: entries_of_set)
    from watermark_max [OF this] obtain w where w: "watermark es = Some w" by blast
    have srt: "sorted (map ?f ?E)"
      unfolding entries_of_def sorted_entries_def by (rule sorted_filter) simp
    have up: "?f e \<le> utc_seconds w" if "e \<in> set ?E" for e
    proof -
      from that have "e \<in> set es" by (simp add: entries_of_set)
      from watermark_max [OF this] w show ?thesis by simp
    qed
    from srt Cons have lo: "\<forall>e\<in>set ?E. ?f e0 \<le> ?f e"
      using sorted_hd_min [of ?f e0 E'] by simp
    have b: "\<forall>e\<in>set ?E. ?f e0 \<le> ?f e \<and> ?f e \<le> utc_seconds w"
      using lo up by blast
    have c: "status default_state = connected \<longrightarrow>
        map_option utc_seconds (session_start_time default_state) = Some (?f e0)"
      by (simp add: default_state_def)
    from bounds_sorted [OF srt b up [OF e0] c, of k]
    show ?thesis by (simp add: calculate_sessions_peer w)
  qed
qed

lemma sorted_entries_Nil: "sorted_entries es = [] \<longleftrightarrow> es = []"
  using set_sorted_entries [of es] by (metis set_empty)

lemma final_state_peer:
  "final_state es k = fold next_state (entries_of k (sorted_entries es)) default_state"
proof -
  obtain ps ss where f: "fold process_entry (sorted_entries es) ([], []) = (ps, ss)"
    by (cases "fold process_entry (sorted_entries es) ([], [])")
  have d: "lookup_state [] k = default_state" by (simp add: lookup_state_def)
  from fold_process_entry_peer [OF f, of k] show ?thesis
    by (simp add: final_state_def f d)
qed

lemma filter_ongoing_peer_sessions: "filter sess_ongoing (peer_sessions es s) = []"
  using peer_sessions_mem by (fastforce simp: filter_empty_conv)

lemma filter_ongoing_ongoing_of: "filter sess_ongoing (ongoing_of k w s) = ongoing_of k w s"
  by (simp add: ongoing_of_def)

lemma watermark_connected:
  assumes "status (final_state es k) = connected"
  shows "watermark es = Some (timestamp (last (sorted_entries es)))"
proof -
  from assms have "entries_of k (sorted_entries es) \<noteq> []"
    by (auto simp: final_state_peer default_state_def)
  then obtain e where "e \<in> set (entries_of k (sorted_entries es))"
    by (cases "entries_of k (sorted_entries es)") auto
  then have "e \<in> set es" by (simp add: entries_of_set)
  then have "sorted_entries es \<noteq> []" by (auto simp: sorted_entries_Nil)
  then show ?thesis by (simp add: watermark_def)
qed

lemma ongoing_filter_peer:
  "filter sess_ongoing (sessions_of k (calculate_sessions es)) =
     ongoing_of k (watermark es) (final_state es k)"
  by (simp add: calculate_sessions_peer filter_ongoing_peer_sessions filter_ongoing_ongoing_of
        final_state_peer)

lemma no_entries_result:
  "fst (read_log_files a peer_map log_files) = [] \<Longrightarrow>
     process_logs a peer_map log_files = Inr [] \<or> process_logs a peer_map log_files = Inl SystemExit1"
  by (cases "read_log_files a peer_map log_files")
     (simp add: process_logs_def process_logs_sessions_def)

lemma fold_process_entry_name:
  "current_name (lookup_state (fst (fold process_entry es (ps, ss))) k) =
     last_known_name (current_name (lookup_state ps k)) (entries_of k es)"
proof -
  obtain ps' ss' where f: "fold process_entry es (ps, ss) = (ps', ss')"
    by (cases "fold process_entry es (ps, ss)")
  from fold_process_entry_peer [OF f, of k] show ?thesis
    by (simp add: f current_name_fold)
qed

lemma sort_two:
  "sort_key f [a, b] = (if f a \<le> f b then [a, b] else [b, a])"
  by simp

lemma unknown_then_alice:
  "map PeerName (map session_row (calculate_sessions
     [\<lparr>timestamp = t1, event = ''CONNECT'', peer_key = k, peer_name = ''Unknown'', endpoint = ip1\<rparr>,
      \<lparr>timestamp = t2, event = ''DISCONNECT'', peer_key = k, peer_name = ''Alice'', endpoint = ip2\<rparr>]))
   = [''Alice'']"
  by (simp add: calculate_sessions_def process_entry_eq next_state_def emitted_def adopt_name_def
        lookup_state_def default_state_def is_connect_event_def is_disconnect_event_def
        ongoing_sessions_def session_row_def Let_def)

lemma no_disconnect_run:
  "list_all (\<lambda>x. \<not> is_disconnect_event x) es \<Longrightarrow> peer_sessions es s = []"
  by (induction es arbitrary: s) (simp_all add: emitted_def)

lemma connected_run:
  "list_all (\<lambda>x. \<not> is_disconnect_event x) xs \<Longrightarrow> status s = connected \<Longrightarrow>
     peer_sessions (xs @ ys) s = peer_sessions ys (fold next_state xs s) \<and>
     status (fold next_state xs s) = connected \<and>
     session_start_time (fold next_state xs s) = session_start_time s \<and>
     session_start_ip (fold next_state xs s) = session_start_ip s"
proof (induction xs arbitrary: s)
  case Nil
  then show ?case by simp
next
  case (Cons x xs)
  from Cons.prems have n: "next_state x s = adopt_name x s"
    by (simp add: next_state_def)
  from Cons.prems have m: "emitted x s = []"
    by (simp add: emitted_def)
  from Cons.prems have "list_all (\<lambda>x. \<not> is_disconnect_event x) xs" by simp
  from Cons.IH [OF this, of "adopt_name x s"] Cons.prems(2) show ?case
    by (simp add: n m)
qed

lemma block_run:
  assumes "block_ok (c, xs, d)" and "status s = disconnected"
  shows "status (fold next_state (block_entries (c, xs, d)) s) = disconnected \<and>
     peer_sessions (block_entries (c, xs, d) @ tail_es) s =
       \<lparr>sess_key = peer_key d,
        sess_name = current_name (fold next_state (block_entries (c, xs, d)) s),
        sess_start = Some (timestamp c), sess_end = Some (timestamp d),
        sess_ip = Some (endpoint c), sess_ongoing = False\<rparr>
       # peer_sessions tail_es (fold next_state (block_entries (c, xs, d)) s)"
proof -
  from assms(1) have c: "is_connect_event c" and d: "is_disconnect_event d"
    and xs: "list_all (\<lambda>x. \<not> is_disconnect_event x) xs"
    by (simp_all add: block_ok_def)
  from d connect_not_disconnect have nd: "\<not> is_connect_event d" by blast
  let ?s1 = "next_state c s"
  from c assms(2) have s1: "status ?s1 = connected" "session_start_time ?s1 = Some (timestamp c)"
    "session_start_ip ?s1 = Some (endpoint c)" and e1: "emitted c s = []"
    by (simp_all add: next_state_def emitted_def)
  let ?s2 = "fold next_state xs ?s1"
  from connected_run [OF xs s1(1), of "d # tail_es"] s1
  have r: "peer_sessions (xs @ d # tail_es) ?s1 = peer_sessions (d # tail_es) ?s2"
    and s2: "status ?s2 = connected" "session_start_time ?s2 = Some (timestamp c)"
    "session_start_ip ?s2 = Some (endpoint c)"
    by simp_all
  from d nd s2 have e3: "emitted d ?s2 =
      [\<lparr>sess_key = peer_key d, sess_name = current_name (next_state d ?s2),
        sess_start = Some (timestamp c), sess_end = Some (timestamp d),
        sess_ip = Some (endpoint c), sess_ongoing = False\<rparr>]"
    and s3: "status (next_state d ?s2) = disconnected"
    by (simp_all add: emitted_def next_state_def)
  show ?thesis
    by (simp add: block_entries_def e1 r e3 s3)
qed

lemma blocks_run:
  "list_all block_ok bs \<Longrightarrow> status s = disconnected \<Longrightarrow>
   list_all (\<lambda>x. \<not> is_disconnect_event x) rest \<Longrightarrow>
     map (\<lambda>x. (sess_start x, sess_end x, sess_ip x))
       (peer_sessions (concat (map block_entries bs) @ rest) s)
     = map (\<lambda>(c, xs, d). (Some (timestamp c), Some (timestamp d), Some (endpoint c))) bs"
proof (induction bs arbitrary: s)
  case Nil
  then show ?case by (simp add: no_disconnect_run)
next
  case (Cons b bs)
  obtain c xs d where b: "b = (c, xs, d)" by (cases b)
  from Cons.prems(1) b have ok: "block_ok (c, xs, d)" and oks: "list_all block_ok bs"
    by simp_all
  note r = block_run [OF ok Cons.prems(2), of "concat (map block_entries bs) @ rest"]
  from r have st: "status (fold next_state (block_entries (c, xs, d)) s) = disconnected"
    by simp
  from Cons.IH [OF oks st Cons.prems(3)] r show ?case
    by (simp add: b)
qed

lemma completed_filter_peer:
  "filter (\<lambda>x. \<not> sess_ongoing x) (sessions_of k (calculate_sessions es)) =
     peer_sessions (entries_of k (sorted_entries es)) default_state"
proof -
  have a: "filter (\<lambda>x. \<not> sess_ongoing x) (peer_sessions xs s) = peer_sessions xs s" for xs s
    using peer_sessions_mem by (fastforce simp: filter_id_conv)
  have b: "filter (\<lambda>x. \<not> sess_ongoing x) (ongoing_of k w s) = []" for w s
    by (simp add: ongoing_of_def)
  show ?thesis by (simp add: calculate_sessions_peer a b)
qed

lemma peer_sessions_key:
  "\<forall>e\<in>set es. peer_key e = k \<Longrightarrow> \<forall>x\<in>set (peer_sessions es s). sess_key x = k"
  using peer_sessions_mem by fastforce

lemma redundant_connect:
  assumes "is_connect_event e" and "status (lookup_state ps (peer_key e)) = connected"
  shows "snd (process_entry e (ps, ss)) = ss \<and>
     status (lookup_state (fst (process_entry e (ps, ss))) k) = status (lookup_state ps k) \<and>
     session_start_time (lookup_state (fst (process_entry e (ps, ss))) k)
       = session_start_time (lookup_state ps k) \<and>
     session_start_ip (lookup_state (fst (process_entry e (ps, ss))) k)
       = session_start_ip (lookup_state ps k)"
  using assms
  by (simp add: process_entry_eq next_state_def emitted_def lookup_state_update)

lemma process_lines_acc:
  "process_lines a pm ls acc =
     (acc @ fst (process_lines a pm ls []), snd (process_lines a pm ls []))"
proof (induction ls arbitrary: acc)
  case Nil
  then show ?case by simp
next
  case (Cons l ls)
  show ?case
  proof (cases "process_line a pm l")
    case (Inl err)
    then show ?thesis by simp
  next
    case (Inr r)
    show ?thesis
    proof (cases r)
      case None
      with Inr Cons.IH [of acc] show ?thesis by simp
    next
      case (Some e)
      with Inr Cons.IH [of "acc @ [e]"] Cons.IH [of "[e]"] show ?thesis by simp
    qed
  qed
qed

lemma process_file_eq:
  "process_file a pm f (acc, n) =
     (acc @ file_entries a pm f, if file_fails a pm f then n else n + 1)"
proof -
  obtain es r where p: "process_lines a pm (lines_read f) acc = (es, r)"
    by (cases "process_lines a pm (lines_read f) acc")
  from process_lines_acc [of a pm "lines_read f" acc] p
  have "es = acc @ file_entries a pm f" "r = snd (process_lines a pm (lines_read f) [])"
    by (simp_all add: file_entries_def)
  with p show ?thesis
    by (simp add: process_file_def file_fails_def)
qed

lemma fold_process_file:
  "fold (process_file a pm) fs (acc, n) =
     (acc @ concat (map (file_entries a pm) fs),
      n + length (filter (\<lambda>f. \<not> file_fails a pm f) fs))"
  by (induction fs arbitrary: acc n) (simp_all add: process_file_eq)

lemma read_log_files_eq:
  "read_log_files a pm files =
     (concat (map (file_entries a pm) (sorted_reverse files)),
      length (filter (\<lambda>f. \<not> file_fails a pm f) (sorted_reverse files)))"
  by (simp add: read_log_files_def fold_process_file)

lemma set_sorted_reverse [simp]: "set (sorted_reverse files) = set files"
  by (simp add: sorted_reverse_def)

lemma process_logs_exit:
  "process_logs a pm files = Inl SystemExit1 \<longleftrightarrow> (\<forall>f\<in>set files. file_fails a pm f)"
proof -
  have "length (filter (\<lambda>f. \<not> file_fails a pm f) (sorted_reverse files)) = 0
      \<longleftrightarrow> (\<forall>f\<in>set files. file_fails a pm f)"
    by (simp add: filter_empty_conv)
  then show ?thesis
    by (simp add: process_logs_def process_logs_sessions_def read_log_files_eq)
qed

lemma process_logs_error:
  "process_logs a pm files = Inl err \<Longrightarrow> err = SystemExit1"
  by (cases "read_log_files a pm files")
     (auto simp: process_logs_def process_logs_sessions_def split: if_splits)

lemma process_line_Match:
  "process_line a pm (Match (Some t) ev hint k ip) =
     (if \<not> in_date_range a t then Inr None
      else if user a \<noteq> ''all'' \<and> resolve_name pm k hint \<noteq> user a then Inr None
      else case split_first ev of
             Inl err \<Rightarrow> Inl err
           | Inr ev0 \<Rightarrow> Inr (Some \<lparr>timestamp = t, event = ev0, peer_key = k,
                                     peer_name = resolve_name pm k hint, endpoint = ip\<rparr>))"
  by (simp add: process_line_def Let_def)

lemma process_line_skip [simp]:
  "process_line a pm NoMatch = Inr None"
  "process_line a pm (Match None ev hint k ip) = Inr None"
  by (simp_all add: process_line_def)

lemma process_line_Some:
  assumes "process_line a pm l = Inr (Some e)"
  shows "\<exists>ev hint ip. l = Match (Some (timestamp e)) ev hint (peer_key e) ip \<and>
        endpoint e = ip \<and> split_first ev = Inr (event e) \<and>
        in_date_range a (timestamp e) \<and>
        peer_name e = resolve_name pm (peer_key e) hint \<and>
        (user a = ''all'' \<or> peer_name e = user a)"
proof (cases l)
  case NoMatch
  with assms show ?thesis by simp
next
  case (Match ts ev hint k ip)
  show ?thesis
  proof (cases ts)
    case None
    with Match assms show ?thesis by simp
  next
    case (Some t)
    with Match assms have p: "process_line a pm (Match (Some t) ev hint k ip) = Inr (Some e)"
      by simp
    then have r: "in_date_range a t" and u: "user a = ''all'' \<or> resolve_name pm k hint = user a"
      by (auto simp: process_line_Match split: if_splits)
    with p obtain ev0 where ev0: "split_first ev = Inr ev0"
      and e: "e = \<lparr>timestamp = t, event = ev0, peer_key = k,
                   peer_name = resolve_name pm k hint, endpoint = ip\<rparr>"
      by (cases "split_first ev") (auto simp: process_line_Match)
    from e have f: "timestamp e = t" "event e = ev0" "peer_key e = k"
      "peer_name e = resolve_name pm k hint" "endpoint e = ip"
      by simp_all
    show ?thesis
      using Match Some r u ev0 f by auto
  qed
qed

lemma process_lines_entries:
  "e \<in> set (fst (process_lines a pm ls acc)) \<Longrightarrow>
     e \<in> set acc \<or> (\<exists>l\<in>set ls. process_line a pm l = Inr (Some e))"
proof (induction ls arbitrary: acc)
  case Nil
  then show ?case by simp
next
  case (Cons l ls)
  show ?case
  proof (cases "process_line a pm l")
    case (Inl err)
    with Cons.prems show ?thesis by simp
  next
    case (Inr r)
    show ?thesis
    proof (cases r)
      case None
      with Inr Cons.prems Cons.IH [of acc] show ?thesis by auto
    next
      case (Some e')
      with Inr Cons.prems Cons.IH [of "acc @ [e']"] show ?thesis by auto
    qed
  qed
qed

lemma read_log_files_entries:
  assumes "e \<in> set (fst (read_log_files a pm files))"
  shows "\<exists>f\<in>set files. \<exists>l\<in>set (lines_read f). process_line a pm l = Inr (Some e)"
proof -
  from assms obtain f where f: "f \<in> set files" "e \<in> set (file_entries a pm f)"
    by (auto simp: read_log_files_eq)
  from process_lines_entries [of e a pm "lines_read f" "[]"] f(2)
  have "\<exists>l\<in>set (lines_read f). process_line a pm l = Inr (Some e)"
    by (simp add: file_entries_def)
  with f(1) show ?thesis by blast
qed

lemma resolve_name_Some: "pm k = Some n \<Longrightarrow> resolve_name pm k hint = n"
  by (simp add: resolve_name_def)

lemma resolve_name_None: "pm k = None \<Longrightarrow> resolve_name pm k hint = hint"
  by (simp add: resolve_name_def)

lemma constant_name_run:
  "\<forall>e\<in>set es. peer_name e = n \<Longrightarrow>
   current_name s = n \<or> (current_name s = ''Unknown'' \<and> status s = disconnected) \<Longrightarrow>
     (\<forall>x\<in>set (peer_sessions es s). sess_name x = n) \<and>
     (current_name (fold next_state es s) = n \<or>
      (current_name (fold next_state es s) = ''Unknown'' \<and>
       status (fold next_state es s) = disconnected))"
proof (induction es arbitrary: s)
  case Nil
  then show ?case by simp
next
  case (Cons e es)
  from Cons.prems have pn: "peer_name e = n" by simp
  with Cons.prems(2) have ad: "current_name (adopt_name e s) = n"
    by (auto simp: current_name_adopt)
  then have em: "\<forall>x\<in>set (emitted e s). sess_name x = n"
    by (simp add: emitted_def)
  from ad have "current_name (next_state e s) = n" by simp
  then have inv: "current_name (next_state e s) = n \<or>
      (current_name (next_state e s) = ''Unknown'' \<and> status (next_state e s) = disconnected)"
    by simp
  from Cons.prems(1) have "\<forall>e\<in>set es. peer_name e = n" by simp
  from Cons.IH [OF this inv] em show ?case by auto
qed

lemma calculate_sessions_name:
  assumes "\<forall>e\<in>set es. peer_key e = k \<longrightarrow> peer_name e = n"
    and "x \<in> set (calculate_sessions es)" and "sess_key x = k"
  shows "sess_name x = n"
proof -
  let ?E = "entries_of k (sorted_entries es)"
  from assms(1) have all: "\<forall>e\<in>set ?E. peer_name e = n"
    by (simp add: entries_of_set)
  have "current_name default_state = n \<or>
      (current_name default_state = ''Unknown'' \<and> status default_state = disconnected)"
    by (simp add: default_state_def)
  note r = constant_name_run [OF all this]
  from assms(2,3) have "x \<in> set (sessions_of k (calculate_sessions es))"
    by (simp add: sessions_of_def)
  then have "x \<in> set (peer_sessions ?E default_state) \<or>
      x \<in> set (ongoing_of k (watermark es) (fold next_state ?E default_state))"
    by (simp add: calculate_sessions_peer)
  then show ?thesis
  proof
    assume "x \<in> set (peer_sessions ?E default_state)"
    with r show ?thesis by blast
  next
    assume o: "x \<in> set (ongoing_of k (watermark es) (fold next_state ?E default_state))"
    from ongoing_of_mem [OF o] r show ?thesis by auto
  qed
qed

lemma process_logs_sessions_Inr:
  "process_logs_sessions a pm files = Inr S \<Longrightarrow> x \<in> set S \<Longrightarrow>
     x \<in> set (calculate_sessions (fst (read_log_files a pm files)))"
  by (cases "read_log_files a pm files")
     (auto simp: process_logs_sessions_def split: if_splits)

lemma date_le_refl: "date_le d d"
  by (simp add: date_le_def)

lemma date_le_antisym: "date_le a b \<Longrightarrow> date_le b a \<Longrightarrow> a = b"
  by (cases a, cases b) (auto simp: date_le_def)

lemma read_log_files_in_range:
  "e \<in> set (fst (read_log_files a pm files)) \<Longrightarrow> in_date_range a (timestamp e)"
proof -
  assume "e \<in> set (fst (read_log_files a pm files))"
  from read_log_files_entries [OF this] obtain l where "process_line a pm l = Inr (Some e)"
    by blast
  from process_line_Some [OF this] show ?thesis by blast
qed

lemma process_line_kept_iff:
  "user a = ''all'' \<Longrightarrow>
     process_line a pm (Match (Some t) ev hint k ip) \<noteq> Inr None \<longleftrightarrow> in_date_range a t"
  by (cases "split_first ev") (simp_all add: process_line_Match)

section \<open>One session per connect and disconnect\<close>

text \<open>
  C1: let the entries of peer \<open>k\<close> in the sorted stream be a sequence of blocks, each a
  connect-class entry, then entries that are not disconnect-class (further connects
  among them), then a disconnect-class entry, followed by entries none of which is
  disconnect-class. Then the completed sessions of \<open>k\<close> in the result are, in order,
  exactly one per block, starting at the timestamp (and endpoint) of the block's first
  connect and ending at the timestamp of its disconnect; the rows show the two
  timestamps. A connect-class entry of a peer that is already connected appends no
  session and changes no peer's status, start time or start endpoint.
\<close>

theorem one_session_per_pair:
  assumes "entries_of k (sorted_entries es) = concat (map block_entries bs) @ rest"
    and "list_all block_ok bs"
    and "list_all (\<lambda>x. \<not> is_disconnect_event x) rest"
  shows "map (\<lambda>x. (sess_key x, sess_start x, sess_end x, sess_ip x))
           (filter (\<lambda>x. \<not> sess_ongoing x) (sessions_of k (calculate_sessions es)))
         = map (\<lambda>(c, xs, d). (k, Some (timestamp c), Some (timestamp d), Some (endpoint c))) bs
       \<and> map (\<lambda>x. (SessionStart (session_row x), SessionEnd (session_row x)))
           (filter (\<lambda>x. \<not> sess_ongoing x) (sessions_of k (calculate_sessions es)))
         = map (\<lambda>(c, xs, d). (isoformat (timestamp c), isoformat (timestamp d))) bs
       \<and> (\<forall>e ps ss k'. is_connect_event e \<and> status (lookup_state ps (peer_key e)) = connected \<longrightarrow>
            snd (process_entry e (ps, ss)) = ss \<and>
            status (lookup_state (fst (process_entry e (ps, ss))) k') = status (lookup_state ps k') \<and>
            session_start_time (lookup_state (fst (process_entry e (ps, ss))) k')
              = session_start_time (lookup_state ps k') \<and>
            session_start_ip (lookup_state (fst (process_entry e (ps, ss))) k')
              = session_start_ip (lookup_state ps k'))"
proof -
  let ?S = "filter (\<lambda>x. \<not> sess_ongoing x) (sessions_of k (calculate_sessions es))"
  have s0: "status default_state = disconnected" by (simp add: default_state_def)
  have S: "?S = peer_sessions (concat (map block_entries bs) @ rest) default_state"
    by (simp add: completed_filter_peer assms(1))
  from blocks_run [OF assms(2) s0 assms(3)] S
  have t: "map (\<lambda>x. (sess_start x, sess_end x, sess_ip x)) ?S
      = map (\<lambda>(c, xs, d). (Some (timestamp c), Some (timestamp d), Some (endpoint c))) bs"
    by simp
  have keys: "\<forall>x\<in>set ?S. sess_key x = k"
    by (auto simp: sessions_of_def)
  have len: "length ?S = length bs"
    using arg_cong [OF t, of length] by simp
  have nth: "sess_start (?S ! i) = Some (timestamp (fst (bs ! i))) \<and>
      sess_end (?S ! i) = Some (timestamp (snd (snd (bs ! i)))) \<and>
      sess_ip (?S ! i) = Some (endpoint (fst (bs ! i)))" if "i < length bs" for i
  proof -
    from that len have "map (\<lambda>x. (sess_start x, sess_end x, sess_ip x)) ?S ! i
        = (sess_start (?S ! i), sess_end (?S ! i), sess_ip (?S ! i))"
      by simp
    moreover from that have "map (\<lambda>(c, xs, d). (Some (timestamp c), Some (timestamp d), Some (endpoint c))) bs ! i
        = (Some (timestamp (fst (bs ! i))), Some (timestamp (snd (snd (bs ! i)))),
           Some (endpoint (fst (bs ! i))))"
      by (simp add: case_prod_beta)
    ultimately show ?thesis using t by simp
  qed
  have a: "map (\<lambda>x. (sess_key x, sess_start x, sess_end x, sess_ip x)) ?S
         = map (\<lambda>(c, xs, d). (k, Some (timestamp c), Some (timestamp d), Some (endpoint c))) bs"
  proof (rule nth_equalityI)
    show "length (map (\<lambda>x. (sess_key x, sess_start x, sess_end x, sess_ip x)) ?S)
        = length (map (\<lambda>(c, xs, d). (k, Some (timestamp c), Some (timestamp d), Some (endpoint c))) bs)"
      using len by simp
  next
    fix i assume "i < length (map (\<lambda>x. (sess_key x, sess_start x, sess_end x, sess_ip x)) ?S)"
    then have i: "i < length bs" "i < length ?S" using len by simp_all
    from i(2) keys have "sess_key (?S ! i) = k" using nth_mem by blast
    with nth [OF i(1)] i
    show "map (\<lambda>x. (sess_key x, sess_start x, sess_end x, sess_ip x)) ?S ! i
        = map (\<lambda>(c, xs, d). (k, Some (timestamp c), Some (timestamp d), Some (endpoint c))) bs ! i"
      by (simp add: case_prod_beta)
  qed
  have b: "map (\<lambda>x. (SessionStart (session_row x), SessionEnd (session_row x))) ?S
         = map (\<lambda>(c, xs, d). (isoformat (timestamp c), isoformat (timestamp d))) bs"
  proof (rule nth_equalityI)
    show "length (map (\<lambda>x. (SessionStart (session_row x), SessionEnd (session_row x))) ?S)
        = length (map (\<lambda>(c, xs, d). (isoformat (timestamp c), isoformat (timestamp d))) bs)"
      using len by simp
  next
    fix i assume "i < length (map (\<lambda>x. (SessionStart (session_row x), SessionEnd (session_row x))) ?S)"
    then have i: "i < length bs" "i < length ?S" using len by simp_all
    from i(2) have "?S ! i \<in> set ?S" by (rule nth_mem)
    then have "\<not> sess_ongoing (?S ! i)" by simp
    with nth [OF i(1)] i
    show "map (\<lambda>x. (SessionStart (session_row x), SessionEnd (session_row x))) ?S ! i
        = map (\<lambda>(c, xs, d). (isoformat (timestamp c), isoformat (timestamp d))) bs ! i"
      by (simp add: case_prod_beta session_row_def iso_or_na_def)
  qed
  from a b redundant_connect show ?thesis by blast
qed

theorem one_session_per_pair_witness:
  "map (\<lambda>x. (SessionStart (session_row x), SessionEnd (session_row x)))
     (filter (\<lambda>x. \<not> sess_ongoing x) (sessions_of ''keyA'' (calculate_sessions
     [log_entry (at_time 9 0 0) ''CONNECT'' ''keyA'' ''alice'',
      log_entry (at_time 9 10 0) ''CONNECT'' ''keyB'' ''bob'',
      log_entry (at_time 9 15 0) ''RECONNECT/UPDATE'' ''keyA'' ''alice'',
      log_entry (at_time 9 30 0) ''DISCONNECT'' ''keyA'' ''alice'',
      log_entry (at_time 9 35 0) ''DISCONNECT'' ''keyB'' ''bob'',
      log_entry (at_time 10 0 0) ''CONNECT'' ''keyA'' ''alice'',
      log_entry (at_time 10 20 0) ''DISCONNECT'' ''keyA'' ''alice'',
      log_entry (at_time 11 0 0) ''CONNECT'' ''keyA'' ''alice''])))
   = [(''2024-03-10T09:00:00+08:00'', ''2024-03-10T09:30:00+08:00''),
        (''2024-03-10T10:00:00+08:00'', ''2024-03-10T10:20:00+08:00'')]"
proof -
  let ?es = "[log_entry (at_time 9 0 0) ''CONNECT'' ''keyA'' ''alice'',
      log_entry (at_time 9 10 0) ''CONNECT'' ''keyB'' ''bob'',
      log_entry (at_time 9 15 0) ''RECONNECT/UPDATE'' ''keyA'' ''alice'',
      log_entry (at_time 9 30 0) ''DISCONNECT'' ''keyA'' ''alice'',
      log_entry (at_time 9 35 0) ''DISCONNECT'' ''keyB'' ''bob'',
      log_entry (at_time 10 0 0) ''CONNECT'' ''keyA'' ''alice'',
      log_entry (at_time 10 20 0) ''DISCONNECT'' ''keyA'' ''alice'',
      log_entry (at_time 11 0 0) ''CONNECT'' ''keyA'' ''alice'']"
  let ?bs = "[(log_entry (at_time 9 0 0) ''CONNECT'' ''keyA'' ''alice'',
         [log_entry (at_time 9 15 0) ''RECONNECT/UPDATE'' ''keyA'' ''alice''],
         log_entry (at_time 9 30 0) ''DISCONNECT'' ''keyA'' ''alice''),
        (log_entry (at_time 10 0 0) ''CONNECT'' ''keyA'' ''alice'', [],
         log_entry (at_time 10 20 0) ''DISCONNECT'' ''keyA'' ''alice'')]"
  let ?rest = "[log_entry (at_time 11 0 0) ''CONNECT'' ''keyA'' ''alice'']"
  have h1: "entries_of ''keyA'' (sorted_entries ?es) = concat (map block_entries ?bs) @ ?rest"
    by code_simp
  have h2: "list_all block_ok ?bs"
    by code_simp
  have h3: "list_all (\<lambda>x. \<not> is_disconnect_event x) ?rest"
    by code_simp
  have v: "map (\<lambda>(c, xs, d). (isoformat (timestamp c), isoformat (timestamp d))) ?bs
      = [(''2024-03-10T09:00:00+08:00'', ''2024-03-10T09:30:00+08:00''),
        (''2024-03-10T10:00:00+08:00'', ''2024-03-10T10:20:00+08:00'')]"
    by code_simp
  from one_session_per_pair [OF h1 h2 h3]
  have "map (\<lambda>x. (SessionStart (session_row x), SessionEnd (session_row x)))
     (filter (\<lambda>x. \<not> sess_ongoing x) (sessions_of ''keyA'' (calculate_sessions ?es)))
      = map (\<lambda>(c, xs, d). (isoformat (timestamp c), isoformat (timestamp d))) ?bs"
    by blast
  with v show ?thesis by simp
qed

section \<open>Sessions still open at the end\<close>

text \<open>
  C2: once the sorted stream is exhausted, the result holds for each peer exactly one
  ongoing session if the peer's final state is connected, and none otherwise. The end
  time of every ongoing session is the timestamp of the last entry of the whole sorted
  stream, an entry of the stream that no entry is later than, whichever peer it belongs
  to; the row's end marker embeds it. With no entries there is no session at all: the
  run returns no rows (or stops because no file was processed).
\<close>

theorem open_sessions_watermark:
  "filter sess_ongoing (sessions_of k (calculate_sessions es)) =
     (if status (final_state es k) = connected
      then [\<lparr>sess_key = k, sess_name = current_name (final_state es k),
             sess_start = session_start_time (final_state es k),
             sess_end = Some (timestamp (last (sorted_entries es))),
             sess_ip = session_start_ip (final_state es k), sess_ongoing = True\<rparr>]
      else [])
   \<and> (\<forall>x\<in>set (calculate_sessions es). sess_ongoing x \<longrightarrow>
         SessionEnd (session_row x)
           = ''Ongoing (as of '' @ isoformat (timestamp (last (sorted_entries es))) @ '')'')
   \<and> (\<forall>e\<in>set es. utc_seconds (timestamp e) \<le> utc_seconds (timestamp (last (sorted_entries es))))
   \<and> (es \<noteq> [] \<longrightarrow> last (sorted_entries es) \<in> set es)
   \<and> calculate_sessions [] = []
   \<and> (\<forall>a peer_map log_files. fst (read_log_files a peer_map log_files) = [] \<longrightarrow>
         process_logs a peer_map log_files = Inr [] \<or>
         process_logs a peer_map log_files = Inl SystemExit1)"
proof -
  have a: "filter sess_ongoing (sessions_of k (calculate_sessions es)) =
     (if status (final_state es k) = connected
      then [\<lparr>sess_key = k, sess_name = current_name (final_state es k),
             sess_start = session_start_time (final_state es k),
             sess_end = Some (timestamp (last (sorted_entries es))),
             sess_ip = session_start_ip (final_state es k), sess_ongoing = True\<rparr>]
      else [])"
    using watermark_connected [of es k]
    by (simp add: ongoing_filter_peer ongoing_of_def)
  have b: "SessionEnd (session_row x)
           = ''Ongoing (as of '' @ isoformat (timestamp (last (sorted_entries es))) @ '')''"
    if x: "x \<in> set (calculate_sessions es)" and o: "sess_ongoing x" for x
  proof -
    from x o have "x \<in> set (filter sess_ongoing (sessions_of (sess_key x) (calculate_sessions es)))"
      by (simp add: sessions_of_def)
    then have m: "x \<in> set (ongoing_of (sess_key x) (watermark es) (final_state es (sess_key x)))"
      by (simp add: ongoing_filter_peer)
    from ongoing_of_mem [OF m] have "status (final_state es (sess_key x)) = connected"
      and "sess_end x = watermark es" by simp_all
    with watermark_connected [of es "sess_key x"]
    have "sess_end x = Some (timestamp (last (sorted_entries es)))" by simp
    with o show ?thesis by (simp add: session_row_def iso_or_na_def)
  qed
  have c: "utc_seconds (timestamp e) \<le> utc_seconds (timestamp (last (sorted_entries es)))"
    if "e \<in> set es" for e
  proof -
    from watermark_max [OF that] obtain w where w: "watermark es = Some w"
      "utc_seconds (timestamp e) \<le> utc_seconds w" by blast
    then show ?thesis by (simp add: watermark_def split: if_splits)
  qed
  have d: "es \<noteq> [] \<longrightarrow> last (sorted_entries es) \<in> set es"
  proof
    assume "es \<noteq> []"
    then have "sorted_entries es \<noteq> []"
      by (simp add: sorted_entries_Nil)
    from last_in_set [OF this] show "last (sorted_entries es) \<in> set es" by simp
  qed
  have e: "calculate_sessions [] = []"
    by (simp add: calculate_sessions_def ongoing_sessions_def)
  from a b c d e no_entries_result show ?thesis by blast
qed

theorem open_sessions_watermark_witness:
  "calculate_sessions
     [log_entry (at_time 9 5 0) ''CONNECT'' ''keyB'' ''bob'',
      log_entry (at_time 9 0 0) ''CONNECT'' ''keyA'' ''alice'',
      log_entry (at_time 9 7 0) ''DISCONNECT'' ''keyA'' ''alice'']
   = [\<lparr>sess_key = ''keyA'', sess_name = ''alice'', sess_start = Some (at_time 9 0 0),
       sess_end = Some (at_time 9 7 0), sess_ip = Some ''203.0.113.7'', sess_ongoing = False\<rparr>,
      \<lparr>sess_key = ''keyB'', sess_name = ''bob'', sess_start = Some (at_time 9 5 0),
       sess_end = Some (at_time 9 7 0), sess_ip = Some ''203.0.113.7'', sess_ongoing = True\<rparr>]
   \<and> last (sorted_entries
     [log_entry (at_time 9 5 0) ''CONNECT'' ''keyB'' ''bob'',
      log_entry (at_time 9 0 0) ''CONNECT'' ''keyA'' ''alice'',
      log_entry (at_time 9 7 0) ''DISCONNECT'' ''keyA'' ''alice''])
     = log_entry (at_time 9 7 0) ''DISCONNECT'' ''keyA'' ''alice''
   \<and> map SessionEnd (map session_row (filter sess_ongoing (calculate_sessions
     [log_entry (at_time 9 5 0) ''CONNECT'' ''keyB'' ''bob'',
      log_entry (at_time 9 0 0) ''CONNECT'' ''keyA'' ''alice'',
      log_entry (at_time 9 7 0) ''DISCONNECT'' ''keyA'' ''alice''])))
     = [''Ongoing (as of 2024-03-10T09:07:00+08:00)'']"
proof -
  let ?es = "[log_entry (at_time 9 5 0) ''CONNECT'' ''keyB'' ''bob'',
      log_entry (at_time 9 0 0) ''CONNECT'' ''keyA'' ''alice'',
      log_entry (at_time 9 7 0) ''DISCONNECT'' ''keyA'' ''alice'']"
  have v: "calculate_sessions ?es
   = [\<lparr>sess_key = ''keyA'', sess_name = ''alice'', sess_start = Some (at_time 9 0 0),
       sess_end = Some (at_time 9 7 0), sess_ip = Some ''203.0.113.7'', sess_ongoing = False\<rparr>,
      \<lparr>sess_key = ''keyB'', sess_name = ''bob'', sess_start = Some (at_time 9 5 0),
       sess_end = Some (at_time 9 7 0), sess_ip = Some ''203.0.113.7'', sess_ongoing = True\<rparr>]"
    by code_simp
  have l: "last (sorted_entries ?es) = log_entry (at_time 9 7 0) ''DISCONNECT'' ''keyA'' ''alice''"
    by code_simp
  have t: "timestamp (log_entry (at_time 9 7 0) ''DISCONNECT'' ''keyA'' ''alice'') = at_time 9 7 0"
    by (simp add: log_entry_def)
  have i: "isoformat (at_time 9 7 0) = ''2024-03-10T09:07:00+08:00''"
    by code_simp
  from open_sessions_watermark [of "''keyB''" ?es]
  have "\<forall>x\<in>set (calculate_sessions ?es). sess_ongoing x \<longrightarrow>
         SessionEnd (session_row x)
           = ''Ongoing (as of '' @ isoformat (timestamp (last (sorted_entries ?es))) @ '')''"
    by blast
  then have "map SessionEnd (map session_row (filter sess_ongoing (calculate_sessions ?es)))
     = [''Ongoing (as of 2024-03-10T09:07:00+08:00)'']"
    by (simp add: v l i t)
  with v l show ?thesis by simp
qed

section \<open>The default start date\<close>

text \<open>
  C3 (as stated): with no start date, the start date is the end date minus N days.
  It fails: with N = 3 and the end date 2024-03-10 the start date is 2024-03-08, while
  three days before the end date is 2024-03-07.
\<close>

theorem default_start_counterexample:
  "parse_arguments \<lparr>year = 2024, month = 3, day = 10\<rparr> ''all'' NotGiven NotGiven 3
     = Inr \<lparr>user = ''all'', start_date_dt = \<lparr>year = 2024, month = 3, day = 8\<rparr>,
            end_date_dt = \<lparr>year = 2024, month = 3, day = 10\<rparr>\<rparr>
   \<and> date_sub_days \<lparr>year = 2024, month = 3, day = 10\<rparr> 3
     = Inr \<lparr>year = 2024, month = 3, day = 7\<rparr>"
  by code_simp

text \<open>
  C3 (amended): with no start date, the start date is the end date minus N - 1 days (the
  range then holds N calendar days, the end date included), the end date being the one
  given or else today; and the run goes on only if that start date is not after the
  end date.
\<close>

theorem default_start:
  assumes "parse_arguments today usr NotGiven end_date days = Inr a"
  shows "date_sub_days (end_date_dt a) (days - 1) = Inr (start_date_dt a)
         \<and> end_date_dt a = (case end_date of Given d \<Rightarrow> d | _ \<Rightarrow> today)
         \<and> date_le (start_date_dt a) (end_date_dt a)"
  using assms
  by (auto simp: parse_arguments_def date_gt_def split: date_arg.splits sum.splits if_splits)

theorem default_start_witness:
  "parse_arguments \<lparr>year = 2024, month = 3, day = 10\<rparr> ''all'' NotGiven NotGiven 3
     = Inr \<lparr>user = ''all'', start_date_dt = \<lparr>year = 2024, month = 3, day = 8\<rparr>,
            end_date_dt = \<lparr>year = 2024, month = 3, day = 10\<rparr>\<rparr>
   \<and> date_sub_days \<lparr>year = 2024, month = 3, day = 10\<rparr> (3 - 1)
     = Inr \<lparr>year = 2024, month = 3, day = 8\<rparr>"
proof -
  have h: "parse_arguments \<lparr>year = 2024, month = 3, day = 10\<rparr> ''all'' NotGiven NotGiven 3
     = Inr \<lparr>user = ''all'', start_date_dt = \<lparr>year = 2024, month = 3, day = 8\<rparr>,
            end_date_dt = \<lparr>year = 2024, month = 3, day = 10\<rparr>\<rparr>"
    by code_simp
  from default_start [OF h] h show ?thesis by simp
qed

section \<open>A file that cannot be read\<close>

text \<open>
  C4 (as stated): when at least one file is discovered, a file that cannot be opened or
  decoded never ends the run fatally, even when every discovered file fails. It fails:
  with one discovered file, which cannot be opened, the run exits with status 1.
\<close>

theorem file_failure_counterexample:
  "process_logs \<lparr>user = ''all'', start_date_dt = \<lparr>year = 2024, month = 3, day = 8\<rparr>,
                 end_date_dt = \<lparr>year = 2024, month = 3, day = 10\<rparr>\<rparr>
     Map.empty
     [\<lparr>path = ''/var/log/wireguard-connections.log.2.gz'', lines_read = [], read_error = True\<rparr>]
   = Inl SystemExit1"
  by (simp add: process_logs_def process_logs_sessions_def read_log_files_def sorted_reverse_def
        process_file_def)

text \<open>
  C4 (amended): a file that cannot be opened or decoded is abandoned where it fails, and
  every other discovered file is still processed: the entries collected are those of
  each file read on its own, in the order the files are processed, whichever of them
  fail. The run ends fatally exactly when no discovered file is read to its end without
  an exception (so also when every discovered file fails), and never for another reason.
\<close>

theorem file_failure_isolated:
  "fst (read_log_files a pm files) = concat (map (file_entries a pm) (sorted_reverse files))
   \<and> snd (read_log_files a pm files)
       = length (filter (\<lambda>f. \<not> file_fails a pm f) (sorted_reverse files))
   \<and> (process_logs a pm files = Inl SystemExit1 \<longleftrightarrow> (\<forall>f\<in>set files. file_fails a pm f))
   \<and> (\<forall>err. process_logs a pm files = Inl err \<longrightarrow> err = SystemExit1)"
  using process_logs_exit [of a pm files] process_logs_error [of a pm files]
  by (simp add: read_log_files_eq)

theorem file_failure_isolated_witness:
  "process_logs \<lparr>user = ''all'', start_date_dt = \<lparr>year = 2024, month = 3, day = 8\<rparr>,
        end_date_dt = \<lparr>year = 2024, month = 3, day = 10\<rparr>\<rparr> Map.empty
     [\<lparr>path = ''/var/log/wireguard-connections.log'',
        lines_read = [Match (Some (at_time 9 30 0)) ''DISCONNECT (Timeout)'' ''alice'' ''keyA''
                        ''203.0.113.7''],
        read_error = False\<rparr>,
      \<lparr>path = ''/var/log/wireguard-connections.log.1'',
        lines_read = [NoMatch,
                      Match (Some (at_time 9 0 0)) ''CONNECT'' ''alice'' ''keyA'' ''203.0.113.7''],
        read_error = False\<rparr>,
      \<lparr>path = ''/var/log/wireguard-connections.log.2.gz'', lines_read = [],
        read_error = True\<rparr>]
   = Inr [\<lparr>PeerName = ''alice'', SessionStart = ''2024-03-10T09:00:00+08:00'',
            SessionEnd = ''2024-03-10T09:30:00+08:00'', Duration = ''00:30:00'',
            EndpointIP = ''203.0.113.7''\<rparr>]
   \<and> map path (sorted_reverse
     [\<lparr>path = ''/var/log/wireguard-connections.log'',
        lines_read = [Match (Some (at_time 9 30 0)) ''DISCONNECT (Timeout)'' ''alice'' ''keyA''
                        ''203.0.113.7''],
        read_error = False\<rparr>,
      \<lparr>path = ''/var/log/wireguard-connections.log.1'',
        lines_read = [NoMatch,
                      Match (Some (at_time 9 0 0)) ''CONNECT'' ''alice'' ''keyA'' ''203.0.113.7''],
        read_error = False\<rparr>,
      \<lparr>path = ''/var/log/wireguard-connections.log.2.gz'', lines_read = [],
        read_error = True\<rparr>])
     = [''/var/log/wireguard-connections.log.2.gz'', ''/var/log/wireguard-connections.log.1'',
        ''/var/log/wireguard-connections.log'']
   \<and> process_logs \<lparr>user = ''all'', start_date_dt = \<lparr>year = 2024, month = 3, day = 8\<rparr>,
        end_date_dt = \<lparr>year = 2024, month = 3, day = 10\<rparr>\<rparr> Map.empty
     [\<lparr>path = ''/var/log/wireguard-connections.log'',
        lines_read = [Match (Some (at_time 9 30 0)) ''DISCONNECT (Timeout)'' ''alice'' ''keyA''
                        ''203.0.113.7''],
        read_error = False\<rparr>,
      \<lparr>path = ''/var/log/wireguard-connections.log.1'',
        lines_read = [NoMatch,
                      Match (Some (at_time 9 0 0)) ''CONNECT'' ''alice'' ''keyA'' ''203.0.113.7''],
        read_error = False\<rparr>,
      \<lparr>path = ''/var/log/wireguard-connections.log.2.gz'', lines_read = [],
        read_error = True\<rparr>]
   \<noteq> Inl SystemExit1"
proof -
  let ?a = "\<lparr>user = ''all'', start_date_dt = \<lparr>year = 2024, month = 3, day = 8\<rparr>,
        end_date_dt = \<lparr>year = 2024, month = 3, day = 10\<rparr>\<rparr>"
  let ?fs = "[\<lparr>path = ''/var/log/wireguard-connections.log'',
        lines_read = [Match (Some (at_time 9 30 0)) ''DISCONNECT (Timeout)'' ''alice'' ''keyA''
                        ''203.0.113.7''],
        read_error = False\<rparr>,
      \<lparr>path = ''/var/log/wireguard-connections.log.1'',
        lines_read = [NoMatch,
                      Match (Some (at_time 9 0 0)) ''CONNECT'' ''alice'' ''keyA'' ''203.0.113.7''],
        read_error = False\<rparr>,
      \<lparr>path = ''/var/log/wireguard-connections.log.2.gz'', lines_read = [],
        read_error = True\<rparr>]"
  have v: "process_logs ?a Map.empty ?fs = Inr [\<lparr>PeerName = ''alice'', SessionStart = ''2024-03-10T09:00:00+08:00'',
            SessionEnd = ''2024-03-10T09:30:00+08:00'', Duration = ''00:30:00'',
            EndpointIP = ''203.0.113.7''\<rparr>]"
    by code_simp
  have o: "map path (sorted_reverse ?fs)
     = [''/var/log/wireguard-connections.log.2.gz'', ''/var/log/wireguard-connections.log.1'',
        ''/var/log/wireguard-connections.log'']"
    by code_simp
  have g: "\<not> file_fails ?a Map.empty (hd ?fs)"
    by code_simp
  then have "\<not> (\<forall>f\<in>set ?fs. file_fails ?a Map.empty f)"
    by simp
  with file_failure_isolated [of ?a Map.empty ?fs]
  have "process_logs ?a Map.empty ?fs \<noteq> Inl SystemExit1"
    by blast
  with v o show ?thesis by simp
qed

section \<open>Name adoption\<close>

text \<open>
  C5: every entry whose resolved name is not \<^verbatim>\<open>"Unknown"\<close> sets the stored name of its peer
  to that name, whatever the peer's status; an entry named \<^verbatim>\<open>"Unknown"\<close> leaves it. So
  after any stream the stored name is the last name other than \<^verbatim>\<open>"Unknown"\<close> among the
  peer's entries (the name before the stream if there is none), and a name that is not
  \<^verbatim>\<open>"Unknown"\<close> never becomes \<^verbatim>\<open>"Unknown"\<close> again. For a CONNECT named \<^verbatim>\<open>"Unknown"\<close> and a
  DISCONNECT named \<^verbatim>\<open>"Alice"\<close> of one peer, the one row of the report is named
  \<^verbatim>\<open>"Alice"\<close>.
\<close>

theorem name_adoption:
  "(\<forall>e ps ss.
      current_name (lookup_state (fst (process_entry e (ps, ss))) (peer_key e)) =
        (if peer_name e \<noteq> ''Unknown'' then peer_name e
         else current_name (lookup_state ps (peer_key e))))
   \<and> (\<forall>es ps ss k.
        current_name (lookup_state (fst (fold process_entry es (ps, ss))) k) =
          last_known_name (current_name (lookup_state ps k)) (entries_of k es))
   \<and> (\<forall>es ps ss k. current_name (lookup_state ps k) \<noteq> ''Unknown'' \<longrightarrow>
        current_name (lookup_state (fst (fold process_entry es (ps, ss))) k) \<noteq> ''Unknown'')
   \<and> (\<forall>t1 t2 k ip1 ip2.
        map PeerName (map session_row (calculate_sessions
          [\<lparr>timestamp = t1, event = ''CONNECT'', peer_key = k, peer_name = ''Unknown'',
            endpoint = ip1\<rparr>,
           \<lparr>timestamp = t2, event = ''DISCONNECT'', peer_key = k, peer_name = ''Alice'',
            endpoint = ip2\<rparr>]))
        = [''Alice''])"
proof -
  have a: "current_name (lookup_state (fst (process_entry e (ps, ss))) (peer_key e)) =
        (if peer_name e \<noteq> ''Unknown'' then peer_name e
         else current_name (lookup_state ps (peer_key e)))" for e ps ss
    by (simp add: process_entry_eq lookup_state_update current_name_adopt)
  have c: "current_name (lookup_state ps k) \<noteq> ''Unknown'' \<longrightarrow>
        current_name (lookup_state (fst (fold process_entry es (ps, ss))) k) \<noteq> ''Unknown''"
    for es ps ss k
    by (simp add: fold_process_entry_name last_known_name_known)
  from a fold_process_entry_name c unknown_then_alice show ?thesis by blast
qed

theorem name_adoption_witness:
  "map PeerName (map session_row (calculate_sessions
     [log_entry (at_time 9 0 0) ''CONNECT'' ''keyA'' ''Unknown'',
      log_entry (at_time 9 30 0) ''DISCONNECT'' ''keyA'' ''Alice''])) = [''Alice'']
   \<and> current_name (lookup_state (fst (fold process_entry
        [log_entry (at_time 9 40 0) ''CONNECT'' ''keyA'' ''Unknown'']
        ([(''keyA'', default_state\<lparr>current_name := ''Alice''\<rparr>)], []))) ''keyA'') \<noteq> ''Unknown''"
proof -
  have h: "current_name (lookup_state [(''keyA'', default_state\<lparr>current_name := ''Alice''\<rparr>)] ''keyA'')
      \<noteq> ''Unknown''"
    by (simp add: lookup_state_def)
  from name_adoption have
    "map PeerName (map session_row (calculate_sessions
          [\<lparr>timestamp = at_time 9 0 0, event = ''CONNECT'', peer_key = ''keyA'',
            peer_name = ''Unknown'', endpoint = ''203.0.113.7''\<rparr>,
           \<lparr>timestamp = at_time 9 30 0, event = ''DISCONNECT'', peer_key = ''keyA'',
            peer_name = ''Alice'', endpoint = ''203.0.113.7''\<rparr>]))
        = [''Alice'']"
    by blast
  moreover from name_adoption h have
    "current_name (lookup_state (fst (fold process_entry
        [log_entry (at_time 9 40 0) ''CONNECT'' ''keyA'' ''Unknown'']
        ([(''keyA'', default_state\<lparr>current_name := ''Alice''\<rparr>)], []))) ''keyA'') \<noteq> ''Unknown''"
    by blast
  ultimately show ?thesis by (simp add: log_entry_def)
qed

section \<open>Name resolution\<close>

text \<open>
  C6: the resolved name of a line is the peer map's name for the line's key when the map
  has the key, whatever name the line embeds, and the embedded name otherwise. The entry
  made of the line carries the resolved name, the peer filter compares the resolved
  name with the requested user, and every session of a key the map knows, hence its
  row, bears the map's name.
\<close>

theorem map_name_wins:
  "(\<forall>k n hint. pm k = Some n \<longrightarrow> resolve_name pm k hint = n)
   \<and> (\<forall>k hint. pm k = None \<longrightarrow> resolve_name pm k hint = hint)
   \<and> (\<forall>l e. process_line a pm l = Inr (Some e) \<longrightarrow>
         (\<exists>ev hint ip. l = Match (Some (timestamp e)) ev hint (peer_key e) ip \<and>
            peer_name e = resolve_name pm (peer_key e) hint \<and>
            (user a = ''all'' \<or> resolve_name pm (peer_key e) hint = user a)))
   \<and> (\<forall>t ev hint k ip. user a \<noteq> ''all'' \<and> resolve_name pm k hint \<noteq> user a \<longrightarrow>
         process_line a pm (Match t ev hint k ip) = Inr None)
   \<and> (\<forall>S x n. process_logs_sessions a pm files = Inr S \<and> x \<in> set S \<and>
         pm (sess_key x) = Some n \<longrightarrow>
         sess_name x = n \<and> PeerName (session_row x) = n)"
proof -
  have c: "\<exists>ev hint ip. l = Match (Some (timestamp e)) ev hint (peer_key e) ip \<and>
            peer_name e = resolve_name pm (peer_key e) hint \<and>
            (user a = ''all'' \<or> resolve_name pm (peer_key e) hint = user a)"
    if "process_line a pm l = Inr (Some e)" for l e
  proof -
    from process_line_Some [OF that] obtain ev hint ip where
      "l = Match (Some (timestamp e)) ev hint (peer_key e) ip"
      "peer_name e = resolve_name pm (peer_key e) hint"
      "user a = ''all'' \<or> peer_name e = user a"
      by blast
    then show ?thesis by auto
  qed
  have d: "process_line a pm (Match t ev hint k ip) = Inr None"
    if "user a \<noteq> ''all'' \<and> resolve_name pm k hint \<noteq> user a" for t ev hint k ip
    using that by (cases t) (simp_all add: process_line_Match)
  have e: "sess_name x = n \<and> PeerName (session_row x) = n"
    if S: "process_logs_sessions a pm files = Inr S" and x: "x \<in> set S"
      and n: "pm (sess_key x) = Some n" for S x n
  proof -
    let ?es = "fst (read_log_files a pm files)"
    have "\<forall>e\<in>set ?es. peer_key e = sess_key x \<longrightarrow> peer_name e = n"
    proof (intro ballI impI)
      fix e assume e: "e \<in> set ?es" and k: "peer_key e = sess_key x"
      from read_log_files_entries [OF e] obtain l where "process_line a pm l = Inr (Some e)"
        by blast
      from process_line_Some [OF this] obtain hint
        where "peer_name e = resolve_name pm (peer_key e) hint" by blast
      with k n show "peer_name e = n" by (simp add: resolve_name_Some)
    qed
    from calculate_sessions_name [OF this process_logs_sessions_Inr [OF S x] refl]
    show ?thesis by (simp add: session_row_def)
  qed
  have r1: "\<forall>k n hint. pm k = Some n \<longrightarrow> resolve_name pm k hint = n"
    by (simp add: resolve_name_Some)
  have r2: "\<forall>k hint. pm k = None \<longrightarrow> resolve_name pm k hint = hint"
    by (simp add: resolve_name_None)
  show ?thesis
    apply (intro conjI)
        apply (rule r1)
       apply (rule r2)
      apply (intro allI impI, erule c)
     apply (intro allI impI, erule d)
    apply (intro allI impI, elim conjE, erule (2) e)
    done
qed

theorem map_name_wins_witness:
  "resolve_name (load_peer_map (Some [(''Bob'', PublicKey ''K'')])) ''K'' ''Eve'' = ''Bob''
   \<and> process_logs \<lparr>user = ''Bob'', start_date_dt = \<lparr>year = 2024, month = 3, day = 8\<rparr>,
        end_date_dt = \<lparr>year = 2024, month = 3, day = 10\<rparr>\<rparr>
       (load_peer_map (Some [(''Bob'', PublicKey ''K'')]))
     [\<lparr>path = ''/var/log/wireguard-connections.log'',
        lines_read =
          [Match (Some (at_time 9 0 0)) ''CONNECT'' ''Eve'' ''K'' ''203.0.113.7'',
           Match (Some (at_time 9 5 0)) ''CONNECT'' ''Bob'' ''K2'' ''198.51.100.4'',
           Match (Some (at_time 9 30 0)) ''DISCONNECT (Timeout)'' ''Unknown'' ''K'' ''203.0.113.7''],
        read_error = False\<rparr>]
   = Inr [\<lparr>PeerName = ''Bob'', SessionStart = ''2024-03-10T09:00:00+08:00'',
            SessionEnd = ''2024-03-10T09:30:00+08:00'', Duration = ''00:30:00'',
            EndpointIP = ''203.0.113.7''\<rparr>,
          \<lparr>PeerName = ''Bob'', SessionStart = ''2024-03-10T09:05:00+08:00'',
            SessionEnd = ''Ongoing (as of 2024-03-10T09:30:00+08:00)'',
            Duration = ''00:25:00 (up to last log)'', EndpointIP = ''198.51.100.4''\<rparr>]"
proof -
  let ?pm = "(load_peer_map (Some [(''Bob'', PublicKey ''K'')]))"
  have h: "?pm ''K'' = Some ''Bob''"
    by (simp add: load_peer_map_def)
  have v: "process_logs \<lparr>user = ''Bob'', start_date_dt = \<lparr>year = 2024, month = 3, day = 8\<rparr>,
        end_date_dt = \<lparr>year = 2024, month = 3, day = 10\<rparr>\<rparr> ?pm
     [\<lparr>path = ''/var/log/wireguard-connections.log'',
        lines_read =
          [Match (Some (at_time 9 0 0)) ''CONNECT'' ''Eve'' ''K'' ''203.0.113.7'',
           Match (Some (at_time 9 5 0)) ''CONNECT'' ''Bob'' ''K2'' ''198.51.100.4'',
           Match (Some (at_time 9 30 0)) ''DISCONNECT (Timeout)'' ''Unknown'' ''K'' ''203.0.113.7''],
        read_error = False\<rparr>]
   = Inr [\<lparr>PeerName = ''Bob'', SessionStart = ''2024-03-10T09:00:00+08:00'',
            SessionEnd = ''2024-03-10T09:30:00+08:00'', Duration = ''00:30:00'',
            EndpointIP = ''203.0.113.7''\<rparr>,
          \<lparr>PeerName = ''Bob'', SessionStart = ''2024-03-10T09:05:00+08:00'',
            SessionEnd = ''Ongoing (as of 2024-03-10T09:30:00+08:00)'',
            Duration = ''00:25:00 (up to last log)'', EndpointIP = ''198.51.100.4''\<rparr>]"
    by code_simp
  from map_name_wins [of ?pm] h have "resolve_name ?pm ''K'' ''Eve'' = ''Bob''"
    by blast
  with v show ?thesis by simp
qed

section \<open>The date filter\<close>

text \<open>
  C7: a line with a parsed timestamp is dropped when the calendar date of the timestamp,
  read in the timestamp's own UTC offset, is not between the start date and the end
  date, both included; with the user \<^verbatim>\<open>"all"\<close> it passes exactly when the date is in
  that range, and all entries collected from the files are in the range. The offset
  plays no part in the test. A timestamp at 23:59:59 of the end date passes (the start
  date not being after the end date); one at 00:00:00 of a later date, the following
  day for one, does not.
\<close>

theorem date_filter_inclusive:
  "(\<forall>t ev hint k ip. \<not> in_date_range a t \<longrightarrow>
      process_line a pm (Match (Some t) ev hint k ip) = Inr None)
   \<and> (\<forall>t ev hint k ip. user a = ''all'' \<longrightarrow>
        (process_line a pm (Match (Some t) ev hint k ip) \<noteq> Inr None \<longleftrightarrow> in_date_range a t))
   \<and> (\<forall>e\<in>set (fst (read_log_files a pm files)). in_date_range a (timestamp e))
   \<and> (\<forall>t. in_date_range a t \<longleftrightarrow>
         date_le (start_date_dt a) (date t) \<and> date_le (date t) (end_date_dt a))
   \<and> (\<forall>t off. in_date_range a (t\<lparr>utcoffset := off\<rparr>) = in_date_range a t)
   \<and> (\<forall>off. date_le (start_date_dt a) (end_date_dt a) \<longrightarrow>
         in_date_range a \<lparr>date = end_date_dt a, hour = 23, minute = 59, second = 59,
                           utcoffset = off\<rparr>)
   \<and> (\<forall>d off. date_le (end_date_dt a) d \<and> d \<noteq> end_date_dt a \<longrightarrow>
         \<not> in_date_range a \<lparr>date = d, hour = 0, minute = 0, second = 0, utcoffset = off\<rparr>)"
proof -
  have c1: "\<forall>t ev hint k ip. \<not> in_date_range a t \<longrightarrow>
      process_line a pm (Match (Some t) ev hint k ip) = Inr None"
    by (simp add: process_line_Match)
  have c2: "\<forall>t ev hint k ip. user a = ''all'' \<longrightarrow>
        (process_line a pm (Match (Some t) ev hint k ip) \<noteq> Inr None \<longleftrightarrow> in_date_range a t)"
    using process_line_kept_iff by blast
  have c3: "\<forall>e\<in>set (fst (read_log_files a pm files)). in_date_range a (timestamp e)"
    using read_log_files_in_range by blast
  have c4: "\<forall>t. in_date_range a t \<longleftrightarrow>
         date_le (start_date_dt a) (date t) \<and> date_le (date t) (end_date_dt a)"
    by (simp add: in_date_range_def)
  have c5: "\<forall>t off. in_date_range a (t\<lparr>utcoffset := off\<rparr>) = in_date_range a t"
    by (simp add: in_date_range_def)
  have c6: "\<forall>off. date_le (start_date_dt a) (end_date_dt a) \<longrightarrow>
         in_date_range a \<lparr>date = end_date_dt a, hour = 23, minute = 59, second = 59,
                           utcoffset = off\<rparr>"
    by (simp add: in_date_range_def date_le_refl)
  have c7: "\<forall>d off. date_le (end_date_dt a) d \<and> d \<noteq> end_date_dt a \<longrightarrow>
         \<not> in_date_range a \<lparr>date = d, hour = 0, minute = 0, second = 0, utcoffset = off\<rparr>"
    using date_le_antisym by (auto simp: in_date_range_def)
  from c1 c2 c3 c4 c5 c6 c7 show ?thesis by (intro conjI)
qed

theorem date_filter_inclusive_witness:
  "in_date_range \<lparr>user = ''all'', start_date_dt = \<lparr>year = 2024, month = 3, day = 8\<rparr>,
        end_date_dt = \<lparr>year = 2024, month = 3, day = 10\<rparr>\<rparr>
     \<lparr>date = \<lparr>year = 2024, month = 3, day = 10\<rparr>, hour = 23, minute = 59,
        second = 59, utcoffset = 480\<rparr>
   \<and> \<not> in_date_range \<lparr>user = ''all'', start_date_dt = \<lparr>year = 2024, month = 3, day = 8\<rparr>,
        end_date_dt = \<lparr>year = 2024, month = 3, day = 10\<rparr>\<rparr>
     \<lparr>date = \<lparr>year = 2024, month = 3, day = 11\<rparr>, hour = 0, minute = 0,
        second = 0, utcoffset = 480\<rparr>
   \<and> date_sub_days \<lparr>year = 2024, month = 3, day = 10\<rparr> (- 1)
       = Inr \<lparr>year = 2024, month = 3, day = 11\<rparr>
   \<and> process_logs \<lparr>user = ''all'', start_date_dt = \<lparr>year = 2024, month = 3, day = 8\<rparr>,
        end_date_dt = \<lparr>year = 2024, month = 3, day = 10\<rparr>\<rparr> Map.empty
     [\<lparr>path = ''/var/log/wireguard-connections.log'',
        lines_read =
          [Match (Some \<lparr>date = \<lparr>year = 2024, month = 3, day = 10\<rparr>, hour = 23, minute = 59,
        second = 59, utcoffset = 480\<rparr>) ''CONNECT'' ''alice'' ''keyA'' ''203.0.113.7'',
           Match (Some \<lparr>date = \<lparr>year = 2024, month = 3, day = 11\<rparr>, hour = 0, minute = 0,
        second = 0, utcoffset = 480\<rparr>) ''DISCONNECT'' ''alice'' ''keyA'' ''203.0.113.7''],
        read_error = False\<rparr>]
   = Inr [\<lparr>PeerName = ''alice'', SessionStart = ''2024-03-10T23:59:59+08:00'',
            SessionEnd = ''Ongoing (as of 2024-03-10T23:59:59+08:00)'',
            Duration = ''00:00:00 (up to last log)'', EndpointIP = ''203.0.113.7''\<rparr>]"
proof -
  let ?a = "\<lparr>user = ''all'', start_date_dt = \<lparr>year = 2024, month = 3, day = 8\<rparr>,
        end_date_dt = \<lparr>year = 2024, month = 3, day = 10\<rparr>\<rparr>"
  have h1: "date_le (start_date_dt ?a) (end_date_dt ?a)"
    by (simp add: date_le_def)
  have h2: "date_le (end_date_dt ?a) \<lparr>year = 2024, month = 3, day = 11\<rparr>
      \<and> \<lparr>year = 2024, month = 3, day = 11\<rparr> \<noteq> end_date_dt ?a"
    by (simp add: date_le_def)
  have n: "date_sub_days \<lparr>year = 2024, month = 3, day = 10\<rparr> (- 1)
       = Inr \<lparr>year = 2024, month = 3, day = 11\<rparr>"
    by code_simp
  have v: "process_logs ?a Map.empty
     [\<lparr>path = ''/var/log/wireguard-connections.log'',
        lines_read =
          [Match (Some \<lparr>date = \<lparr>year = 2024, month = 3, day = 10\<rparr>, hour = 23, minute = 59,
        second = 59, utcoffset = 480\<rparr>) ''CONNECT'' ''alice'' ''keyA'' ''203.0.113.7'',
           Match (Some \<lparr>date = \<lparr>year = 2024, month = 3, day = 11\<rparr>, hour = 0, minute = 0,
        second = 0, utcoffset = 480\<rparr>) ''DISCONNECT'' ''alice'' ''keyA'' ''203.0.113.7''],
        read_error = False\<rparr>]
   = Inr [\<lparr>PeerName = ''alice'', SessionStart = ''2024-03-10T23:59:59+08:00'',
            SessionEnd = ''Ongoing (as of 2024-03-10T23:59:59+08:00)'',
            Duration = ''00:00:00 (up to last log)'', EndpointIP = ''203.0.113.7''\<rparr>]"
    by code_simp
  from date_filter_inclusive [of ?a] h1
  have k: "in_date_range ?a \<lparr>date = end_date_dt ?a, hour = 23, minute = 59, second = 59,
      utcoffset = 480\<rparr>"
    by blast
  from date_filter_inclusive [of ?a] h2
  have d: "\<not> in_date_range ?a \<lparr>date = \<lparr>year = 2024, month = 3, day = 11\<rparr>, hour = 0,
      minute = 0, second = 0, utcoffset = 480\<rparr>"
    by blast
  from k d n v show ?thesis by simp
qed

section \<open>A disconnect with no session to end\<close>

text \<open>
  C8 (as stated): a disconnect-class entry of a peer that is disconnected is ignored and
  leaves the peer's state unchanged. It fails: the stored name is set before the status
  is looked at, so a DISCONNECT named \<^verbatim>\<open>"Alice"\<close> for a peer in the default state
  changes that state, and the name shows in the row of the peer's later session, which
  is \<^verbatim>\<open>"Unknown"\<close> without the DISCONNECT.
\<close>

theorem disconnect_without_connect_counterexample:
  "is_disconnect_event (log_entry (at_time 9 0 0) ''DISCONNECT'' ''keyA'' ''Alice'')
   \<and> status (lookup_state [] ''keyA'') = disconnected
   \<and> current_name (lookup_state [] ''keyA'') = ''Unknown''
   \<and> current_name (lookup_state (fst (process_entry
         (log_entry (at_time 9 0 0) ''DISCONNECT'' ''keyA'' ''Alice'') ([], []))) ''keyA'')
       = ''Alice''
   \<and> lookup_state (fst (process_entry
         (log_entry (at_time 9 0 0) ''DISCONNECT'' ''keyA'' ''Alice'') ([], []))) ''keyA''
       \<noteq> lookup_state [] ''keyA''
   \<and> map PeerName (map session_row (calculate_sessions
         [log_entry (at_time 9 0 0) ''DISCONNECT'' ''keyA'' ''Alice'',
          log_entry (at_time 9 5 0) ''CONNECT'' ''keyA'' ''Unknown''])) = [''Alice'']
   \<and> map PeerName (map session_row (calculate_sessions
         [log_entry (at_time 9 5 0) ''CONNECT'' ''keyA'' ''Unknown''])) = [''Unknown'']"
proof -
  let ?d = "log_entry (at_time 9 0 0) ''DISCONNECT'' ''keyA'' ''Alice''"
  have a: "is_disconnect_event ?d"
    by (simp add: log_entry_def is_disconnect_event_def)
  have b: "status (lookup_state [] ''keyA'') = disconnected"
    "current_name (lookup_state [] ''keyA'') = ''Unknown''"
    by (simp_all add: lookup_state_def default_state_def)
  have c: "current_name (lookup_state (fst (process_entry ?d ([], []))) ''keyA'') = ''Alice''"
    by code_simp
  from b(2) c have d: "lookup_state (fst (process_entry ?d ([], []))) ''keyA''
      \<noteq> lookup_state [] ''keyA''"
    by auto
  have e: "map PeerName (map session_row (calculate_sessions
         [?d, log_entry (at_time 9 5 0) ''CONNECT'' ''keyA'' ''Unknown''])) = [''Alice'']"
    by code_simp
  have f: "map PeerName (map session_row (calculate_sessions
         [log_entry (at_time 9 5 0) ''CONNECT'' ''keyA'' ''Unknown''])) = [''Unknown'']"
    by code_simp
  from a b c d e f show ?thesis by simp
qed

text \<open>
  C8 (amended): if all the entries of a peer in a stream are disconnect-class (so none is
  preceded by a connect of that peer), no session is emitted for the peer, neither while
  the stream is consumed nor at the end, and the peer stays disconnected with no start
  time and no start endpoint. One such entry, for a disconnected peer, appends no
  session and leaves the peer's status, start time and start endpoint as they are; of
  the peer's state it changes the stored name only, to the entry's name when that is
  not \<^verbatim>\<open>"Unknown"\<close>, and nothing at all when it is; the states of the other peers are
  untouched. The reconstruction has no failure: once a file was read, the run returns
  its rows.
\<close>

theorem disconnect_without_connect:
  assumes "\<forall>e\<in>set es. peer_key e = k \<longrightarrow> is_disconnect_event e"
  shows "sessions_of k (snd (fold process_entry es ([], []))) = []
       \<and> status (lookup_state (fst (fold process_entry es ([], []))) k) = disconnected
       \<and> session_start_time (lookup_state (fst (fold process_entry es ([], []))) k) = None
       \<and> session_start_ip (lookup_state (fst (fold process_entry es ([], []))) k) = None
       \<and> sessions_of k (calculate_sessions es) = []
       \<and> (\<forall>e ps ss. is_disconnect_event e \<and> status (lookup_state ps (peer_key e)) = disconnected \<longrightarrow>
            process_entry e (ps, ss) =
              (AList.update (peer_key e) (adopt_name e (lookup_state ps (peer_key e))) ps, ss))
       \<and> (\<forall>e ps ss. is_disconnect_event e \<and> status (lookup_state ps (peer_key e)) = disconnected \<longrightarrow>
            snd (process_entry e (ps, ss)) = ss \<and>
            lookup_state (fst (process_entry e (ps, ss))) (peer_key e) =
              (lookup_state ps (peer_key e))
                \<lparr>current_name := (if peer_name e \<noteq> ''Unknown'' then peer_name e
                                  else current_name (lookup_state ps (peer_key e)))\<rparr> \<and>
            (peer_name e = ''Unknown'' \<longrightarrow>
               lookup_state (fst (process_entry e (ps, ss))) (peer_key e) =
                 lookup_state ps (peer_key e)) \<and>
            (\<forall>k'. k' \<noteq> peer_key e \<longrightarrow>
               lookup_state (fst (process_entry e (ps, ss))) k' = lookup_state ps k'))
       \<and> (\<forall>a peer_map log_files. snd (read_log_files a peer_map log_files) \<noteq> 0 \<longrightarrow>
            (\<exists>rows. process_logs a peer_map log_files = Inr rows))"
proof -
  obtain ps ss where f: "fold process_entry es ([], []) = (ps, ss)"
    by (cases "fold process_entry es ([], [])")
  have d: "lookup_state [] k = default_state" by (simp add: lookup_state_def)
  have nc: "list_all (\<lambda>e. \<not> is_connect_event e) (entries_of k es)"
    using assms connect_not_disconnect by (auto simp: list_all_iff entries_of_set)
  have nc': "list_all (\<lambda>e. \<not> is_connect_event e) (entries_of k (sorted_entries es))"
    using assms connect_not_disconnect by (auto simp: list_all_iff entries_of_set)
  have s0: "status default_state = disconnected" by (simp add: default_state_def)
  note r = no_connect_run [OF nc s0]
  note r' = no_connect_run [OF nc' s0]
  from fold_process_entry_peer [OF f, of k] r
  have a: "sessions_of k ss = [] \<and> status (lookup_state ps k) = disconnected
      \<and> session_start_time (lookup_state ps k) = None
      \<and> session_start_ip (lookup_state ps k) = None"
    by (simp add: d default_state_def)
  have b: "sessions_of k (calculate_sessions es) = []"
    using r' by (simp add: calculate_sessions_peer ongoing_of_def)
  have step: "process_entry e (ps, ss) =
      (AList.update (peer_key e) (adopt_name e (lookup_state ps (peer_key e))) ps, ss)"
    if "is_disconnect_event e \<and> status (lookup_state ps (peer_key e)) = disconnected"
    for e ps ss
    using that connect_not_disconnect
    by (auto simp: process_entry_eq next_state_def emitted_def)
  have c: "\<forall>e ps ss. is_disconnect_event e \<and> status (lookup_state ps (peer_key e)) = disconnected \<longrightarrow>
            process_entry e (ps, ss) =
              (AList.update (peer_key e) (adopt_name e (lookup_state ps (peer_key e))) ps, ss)"
    using step by blast
  have c': "snd (process_entry e (ps, ss)) = ss \<and>
            lookup_state (fst (process_entry e (ps, ss))) (peer_key e) =
              (lookup_state ps (peer_key e))
                \<lparr>current_name := (if peer_name e \<noteq> ''Unknown'' then peer_name e
                                  else current_name (lookup_state ps (peer_key e)))\<rparr> \<and>
            (peer_name e = ''Unknown'' \<longrightarrow>
               lookup_state (fst (process_entry e (ps, ss))) (peer_key e) =
                 lookup_state ps (peer_key e)) \<and>
            (\<forall>k'. k' \<noteq> peer_key e \<longrightarrow>
               lookup_state (fst (process_entry e (ps, ss))) k' = lookup_state ps k')"
    if h: "is_disconnect_event e \<and> status (lookup_state ps (peer_key e)) = disconnected"
    for e ps ss
    by (simp add: step [OF h] lookup_state_update adopt_name_def)
  from a b c c' f process_logs_returns show ?thesis by simp
qed

theorem disconnect_without_connect_witness:
  "calculate_sessions
     [log_entry (at_time 9 0 0) ''DISCONNECT'' ''keyA'' ''alice'',
      log_entry (at_time 9 5 0) ''CONNECT'' ''keyB'' ''bob'',
      log_entry (at_time 9 7 0) ''DISCONNECT'' ''keyA'' ''alice'']
   = [\<lparr>sess_key = ''keyB'', sess_name = ''bob'', sess_start = Some (at_time 9 5 0),
       sess_end = Some (at_time 9 7 0), sess_ip = Some ''203.0.113.7'', sess_ongoing = True\<rparr>]
   \<and> sessions_of ''keyA'' (calculate_sessions
     [log_entry (at_time 9 0 0) ''DISCONNECT'' ''keyA'' ''alice'',
      log_entry (at_time 9 5 0) ''CONNECT'' ''keyB'' ''bob'',
      log_entry (at_time 9 7 0) ''DISCONNECT'' ''keyA'' ''alice'']) = []"
proof -
  let ?es = "[log_entry (at_time 9 0 0) ''DISCONNECT'' ''keyA'' ''alice'',
      log_entry (at_time 9 5 0) ''CONNECT'' ''keyB'' ''bob'',
      log_entry (at_time 9 7 0) ''DISCONNECT'' ''keyA'' ''alice'']"
  have h: "\<forall>e\<in>set ?es. peer_key e = ''keyA'' \<longrightarrow> is_disconnect_event e"
    by (simp add: log_entry_def is_disconnect_event_def)
  have v: "calculate_sessions ?es
   = [\<lparr>sess_key = ''keyB'', sess_name = ''bob'', sess_start = Some (at_time 9 5 0),
       sess_end = Some (at_time 9 7 0), sess_ip = Some ''203.0.113.7'', sess_ongoing = True\<rparr>]"
    by code_simp
  from disconnect_without_connect [OF h] v show ?thesis by simp
qed

section \<open>A connected peer has a start time and an endpoint\<close>

text \<open>
  C9: after any number of entries of the sorted stream, and for every peer key, a state
  whose status is connected holds a start time and a start endpoint. Hence every session
  of the result, completed or ongoing, carries the timestamp and the endpoint of a
  connect-class entry of its peer, and its row shows them rather than \<^verbatim>\<open>"N/A"\<close>. (The
  endpoint of an entry is never empty: it is group \<^verbatim>\<open>(\S+)\<close> of \<^verbatim>\<open>LOG_PATTERN\<close>.)
\<close>

theorem connected_has_start:
  assumes "\<forall>e\<in>set es. endpoint e \<noteq> []"
  shows "(\<forall>n k. status (lookup_state (fst (fold process_entry (take n (sorted_entries es)) ([], []))) k)
                 = connected \<longrightarrow>
            session_start_time
              (lookup_state (fst (fold process_entry (take n (sorted_entries es)) ([], []))) k) \<noteq> None \<and>
            session_start_ip
              (lookup_state (fst (fold process_entry (take n (sorted_entries es)) ([], []))) k) \<noteq> None)
       \<and> (\<forall>x\<in>set (calculate_sessions es).
            \<exists>c\<in>set es. is_connect_event c \<and> peer_key c = sess_key x \<and>
               sess_start x = Some (timestamp c) \<and> sess_ip x = Some (endpoint c) \<and>
               SessionStart (session_row x) = isoformat (timestamp c) \<and>
               EndpointIP (session_row x) = endpoint c)"
proof -
  have inv: "status (lookup_state (fst (fold process_entry xs ([], []))) k) = connected \<longrightarrow>
      session_start_time (lookup_state (fst (fold process_entry xs ([], []))) k) \<noteq> None \<and>
      session_start_ip (lookup_state (fst (fold process_entry xs ([], []))) k) \<noteq> None" for xs k
  proof -
    obtain ps ss where f: "fold process_entry xs ([], []) = (ps, ss)"
      by (cases "fold process_entry xs ([], [])")
    have d: "lookup_state [] k = default_state" by (simp add: lookup_state_def)
    from fold_process_entry_peer [OF f, of k]
    have l: "lookup_state ps k = fold next_state (entries_of k xs) default_state"
      by (simp add: d)
    from peer_sessions_started [OF started_by_default subset_refl, of "entries_of k xs"]
    have "started_by (set (entries_of k xs)) (lookup_state ps k)"
      by (simp add: l)
    then show ?thesis by (auto simp: f started_by_def)
  qed
  have rows: "\<exists>c\<in>set es. is_connect_event c \<and> peer_key c = sess_key x \<and>
               sess_start x = Some (timestamp c) \<and> sess_ip x = Some (endpoint c) \<and>
               SessionStart (session_row x) = isoformat (timestamp c) \<and>
               EndpointIP (session_row x) = endpoint c"
    if "x \<in> set (calculate_sessions es)" for x
  proof -
    from calculate_sessions_started [OF that] obtain c where c: "c \<in> set es"
      "is_connect_event c" "peer_key c = sess_key x"
      "sess_start x = Some (timestamp c)" "sess_ip x = Some (endpoint c)"
      by blast
    from c(1) assms have "endpoint c \<noteq> []" by simp
    with c show ?thesis
      using session_row_start [OF c(4)] session_row_ip [OF c(5)] by blast
  qed
  from inv rows show ?thesis by blast
qed

theorem connected_has_start_witness:
  "map session_row (calculate_sessions
     [log_entry (at_time 9 0 0) ''CONNECT'' ''keyA'' ''alice'',
      log_entry (at_time 9 30 0) ''DISCONNECT'' ''keyA'' ''alice'',
      log_entry (at_time 9 40 0) ''CONNECT'' ''keyB'' ''bob''])
   = [\<lparr>PeerName = ''alice'', SessionStart = ''2024-03-10T09:00:00+08:00'',
       SessionEnd = ''2024-03-10T09:30:00+08:00'', Duration = ''00:30:00'',
       EndpointIP = ''203.0.113.7''\<rparr>,
      \<lparr>PeerName = ''bob'', SessionStart = ''2024-03-10T09:40:00+08:00'',
       SessionEnd = ''Ongoing (as of 2024-03-10T09:40:00+08:00)'',
       Duration = ''00:00:00 (up to last log)'', EndpointIP = ''203.0.113.7''\<rparr>]
   \<and> list_all (\<lambda>x. sess_start x \<noteq> None \<and> sess_ip x \<noteq> None) (calculate_sessions
     [log_entry (at_time 9 0 0) ''CONNECT'' ''keyA'' ''alice'',
      log_entry (at_time 9 30 0) ''DISCONNECT'' ''keyA'' ''alice'',
      log_entry (at_time 9 40 0) ''CONNECT'' ''keyB'' ''bob''])"
proof -
  let ?es = "[log_entry (at_time 9 0 0) ''CONNECT'' ''keyA'' ''alice'',
      log_entry (at_time 9 30 0) ''DISCONNECT'' ''keyA'' ''alice'',
      log_entry (at_time 9 40 0) ''CONNECT'' ''keyB'' ''bob'']"
  have h: "\<forall>e\<in>set ?es. endpoint e \<noteq> []"
    by (simp add: log_entry_def)
  have v: "map session_row (calculate_sessions ?es)
   = [\<lparr>PeerName = ''alice'', SessionStart = ''2024-03-10T09:00:00+08:00'',
       SessionEnd = ''2024-03-10T09:30:00+08:00'', Duration = ''00:30:00'',
       EndpointIP = ''203.0.113.7''\<rparr>,
      \<lparr>PeerName = ''bob'', SessionStart = ''2024-03-10T09:40:00+08:00'',
       SessionEnd = ''Ongoing (as of 2024-03-10T09:40:00+08:00)'',
       Duration = ''00:00:00 (up to last log)'', EndpointIP = ''203.0.113.7''\<rparr>]"
    by code_simp
  from connected_has_start [OF h]
  have "\<forall>x\<in>set (calculate_sessions ?es). sess_start x \<noteq> None \<and> sess_ip x \<noteq> None"
    by fastforce
  then have "list_all (\<lambda>x. sess_start x \<noteq> None \<and> sess_ip x \<noteq> None) (calculate_sessions ?es)"
    by (simp add: list_all_iff)
  with v show ?thesis by simp
qed

section \<open>The sessions of a peer do not overlap\<close>

text \<open>
  C10: for every list of entries and every peer, the sessions the result holds for that
  peer are in chronological order and do not overlap: each session ends no later than
  every later session of the peer starts (the ongoing session, which comes last,
  included), and each starts no later than it ends (an ongoing one no later than the
  watermark). Equivalently their boundaries, start and end of each in turn, form a
  sorted list of instants, two per session.
\<close>

theorem sessions_chronological:
  "sorted_wrt ends_before (sessions_of k (calculate_sessions es))
   \<and> list_all starts_before_end (sessions_of k (calculate_sessions es))
   \<and> sorted (bounds (sessions_of k (calculate_sessions es)))
   \<and> length (bounds (sessions_of k (calculate_sessions es)))
       = 2 * length (sessions_of k (calculate_sessions es))"
proof -
  let ?S = "sessions_of k (calculate_sessions es)"
  have some: "\<forall>x\<in>set ?S. sess_start x \<noteq> None \<and> sess_end x \<noteq> None"
  proof
    fix x assume "x \<in> set ?S"
    then have x: "x \<in> set (calculate_sessions es)" by (simp add: sessions_of_def)
    from calculate_sessions_started [OF x] calculate_sessions_end [OF x]
    show "sess_start x \<noteq> None \<and> sess_end x \<noteq> None" by auto
  qed
  from sorted_bounds_pairwise [OF some peer_bounds_sorted] bounds_length [OF some]
    peer_bounds_sorted [of k es]
  show ?thesis by simp
qed

end
